theory Spec2Isabelle
  imports Complex_Main
begin

section \<open>JavaScript strings\<close>

text \<open>
  Strings are modelled as \<open>string\<close> (lists of 8-bit characters), read as ASCII text:
  \<open>toLowerCase\<close> folds \<open>A\<close>..\<open>Z\<close>, and the white space of \<open>trim\<close> and of the
  regular expression \<open>\s\<close> is tab, line feed, vertical tab, form feed, carriage return
  and space. Characters beyond ASCII are outside the model.
\<close>

definition toLowerChar :: "char \<Rightarrow> char" where
  "toLowerChar c =
     (let n = (of_char c :: nat) in if 65 \<le> n \<and> n \<le> 90 then char_of (n + 32) else c)"

definition toLowerCase :: "string \<Rightarrow> string" where
  "toLowerCase s = map toLowerChar s"

definition isSpace :: "char \<Rightarrow> bool" where
  "isSpace c = (let n = (of_char c :: nat) in (9 \<le> n \<and> n \<le> 13) \<or> n = 32)"

definition trim :: "string \<Rightarrow> string" where
  "trim s = rev (dropWhile isSpace (rev (dropWhile isSpace s)))"

text \<open>\<open>s.includes(w)\<close>: \<open>w\<close> occurs in \<open>s\<close> as a contiguous substring.\<close>

fun includes_str :: "string \<Rightarrow> string \<Rightarrow> bool" where
  "includes_str [] w = (w = [])"
| "includes_str (c # cs) w = (take (length w) (c # cs) = w \<or> includes_str cs w)"

text \<open>
  \<open>s.split(/\s+/)\<close>: the pieces between maximal runs of white space. A run at the start
  or at the end of \<open>s\<close> leaves an empty piece there, and the empty string splits into one
  empty piece. \<open>splitWs inWs cur s\<close> scans \<open>s\<close> with the current piece \<open>cur\<close> reversed;
  \<open>inWs\<close> says that the scan is inside a run of white space.
\<close>

fun splitWs :: "bool \<Rightarrow> string \<Rightarrow> string \<Rightarrow> string list" where
  "splitWs inWs cur [] = [rev cur]"
| "splitWs inWs cur (c # cs) =
     (if isSpace c then (if inWs then splitWs True [] cs else rev cur # splitWs True [] cs)
      else splitWs False (c # cur) cs)"

definition split_ws :: "string \<Rightarrow> string list" where
  "split_ws s = splitWs False [] s"

section \<open>JavaScript numbers\<close>

text \<open>
  A JavaScript number is an IEEE 754 double. A finite double is modelled by the
  rational number it denotes, and an arithmetic operation on doubles is the exact
  operation followed by \<open>round64\<close>, rounding to the nearest double, ties to the even
  significand. \<open>round64\<close> gives a significand of 53 bits at the exponent of its
  argument; the exponent is not bounded, so overflow to \<open>Infinity\<close> and subnormal
  numbers are outside the model (the numbers rounded here lie between 0 and 1).
\<close>

text \<open>The number of binary digits of a positive integer.\<close>

function bitLength :: "int \<Rightarrow> nat" where
  "bitLength n = (if n \<le> 0 then 0 else Suc (bitLength (n div 2)))"
  by pat_completeness auto
termination
  by (relation "measure nat") auto

declare bitLength.simps [simp del]

text \<open>
  The binary exponent of a positive rational \<open>x\<close>: the \<open>e\<close> with
  \<open>2 ^ e \<le> x < 2 ^ (e + 1)\<close>.
\<close>

definition exponentOf :: "rat \<Rightarrow> int" where
  "exponentOf x =
     (if 1 \<le> x then int (bitLength \<lfloor>x\<rfloor>) - 1
      else let k = int (bitLength \<lfloor>1 / x\<rfloor>)
           in if x = 2 powi (1 - k) then 1 - k else - k)"

text \<open>The integer nearest to \<open>q\<close>, a tie going to the even neighbour.\<close>

definition roundHalfEven :: "rat \<Rightarrow> int" where
  "roundHalfEven q =
     (let f = \<lfloor>q\<rfloor>; d = q - of_int f
      in if d < 1 / 2 then f else if 1 / 2 < d then f + 1 else if even f then f else f + 1)"

text \<open>Rounding to 53 significant bits: one unit in the last place is \<open>2 ^ (e - 52)\<close>.\<close>

definition round64 :: "rat \<Rightarrow> rat" where
  "round64 x =
     (if x = 0 then 0
      else let ulp = 2 powi (exponentOf \<bar>x\<bar> - 52)
           in sgn x * of_int (roundHalfEven (\<bar>x\<bar> / ulp)) * ulp)"

text \<open>Addition, multiplication and division of doubles.\<close>

definition dadd :: "rat \<Rightarrow> rat \<Rightarrow> rat" where
  "dadd x y = round64 (x + y)"

definition dmul :: "rat \<Rightarrow> rat \<Rightarrow> rat" where
  "dmul x y = round64 (x * y)"

definition ddiv :: "rat \<Rightarrow> rat \<Rightarrow> rat" where
  "ddiv x y = round64 (x / y)"

section \<open>Decision analysis: data model\<close>

text \<open>
  The interfaces \<open>DecisionOption\<close>, \<open>AIRanking\<close>, \<open>DecisionContext\<close> and
  \<open>AIAnalysisResult\<close>. Optional fields are \<open>option\<close> values. Scores are JavaScript
  numbers that only ever hold integers, modelled as \<open>int\<close>; \<open>confidence_score\<close> is
  a double, modelled by the rational it denotes. The fields \<open>id\<close> and \<open>text\<close> of an option are named
  \<open>id_opt\<close> and \<open>text_opt\<close>. The optional \<open>userHistory\<close> of a context is read by
  \<open>extractKeyFactors\<close> only and is left out.
\<close>

record DecisionOption =
  id_opt :: string
  text_opt :: string
  pros :: "string list option"
  cons :: "string list option"

datatype risk = low | medium | high

record AIRanking =
  option_id :: string
  rank :: int
  score :: int
  predicted_outcome :: string
  risk_level :: risk
  time_horizon :: string

record DecisionContext =
  title :: string
  description :: "string option"
  category :: string
  urgency :: string
  options :: "DecisionOption list"

text \<open>
  Of the result, the fields computed from the scores are modelled: the rankings, the
  confidence score and the recommended action. The narrative fields (\<open>reasoning\<close>,
  \<open>summary\<close>, \<open>key_factors\<close>, \<open>potential_biases\<close>) are templated text and are left out.
\<close>

record AIAnalysisResult =
  rankings :: "AIRanking list"
  confidence_score :: rat
  recommended_action :: string

datatype js_error = TypeError | RangeError

section \<open>Option scorer\<close>

definition workWords :: "string list" where
  "workWords = [''work'', ''project'', ''job'', ''task'', ''assignment'', ''study'',
     ''homework'', ''deadline'', ''school'', ''college'', ''office'']"

definition avoidanceWords :: "string list" where
  "avoidanceWords = [''sleep'', ''rest'', ''relax'', ''nothing'', ''later'', ''tomorrow'',
     ''skip'', ''ignore'', ''avoid'', ''procrastinate'', ''delay'', ''netflix'', ''game'',
     ''play'', ''chill'']"

definition productiveWords :: "string list" where
  "productiveWords = [''work'', ''project'', ''study'', ''complete'', ''finish'', ''start'',
     ''begin'', ''do'', ''create'', ''build'', ''learn'', ''practice'', ''maths'', ''math'',
     ''graphics'', ''code'', ''write'', ''research'', ''prepare'']"

definition positiveWords :: "string list" where
  "positiveWords = [''best'', ''better'', ''good'', ''great'', ''important'', ''priority'',
     ''urgent'', ''deadline'', ''required'', ''necessary'']"

definition negativeWords :: "string list" where
  "negativeWords = [''risk'', ''bad'', ''problem'', ''difficult'', ''hard'', ''boring'',
     ''tedious'']"

text \<open>\<open>option.pros?.length || 0\<close>: an absent list counts as empty.\<close>

definition lengthOr0 :: "string list option \<Rightarrow> int" where
  "lengthOr0 l = (case l of None \<Rightarrow> 0 | Some xs \<Rightarrow> int (length xs))"

definition fullContext :: "DecisionContext \<Rightarrow> string" where
  "fullContext ctx =
     toLowerCase (title ctx) @ '' '' @
     toLowerCase (case description ctx of None \<Rightarrow> [] | Some d \<Rightarrow> d)"

text \<open>
  The regular expression test \<open>/work|project|...|office/i\<close> on the lower-cased
  context: one of the alternatives occurs in it.
\<close>

definition isWorkDecision :: "DecisionContext \<Rightarrow> bool" where
  "isWorkDecision ctx = list_ex (includes_str (fullContext ctx)) workWords"

definition outcomes :: "string \<Rightarrow> string list" where
  "outcomes c =
     (if c = ''career'' then [''career advancement'', ''professional growth'',
        ''skill development'', ''network expansion'']
      else if c = ''finance'' then [''financial stability'', ''investment returns'',
        ''cost savings'', ''budget optimization'']
      else if c = ''health'' then [''improved wellness'', ''better habits'',
        ''increased energy'', ''long-term health benefits'']
      else if c = ''relationships'' then [''stronger connections'', ''better communication'',
        ''mutual understanding'', ''trust building'']
      else if c = ''lifestyle'' then [''improved quality of life'',
        ''better work-life balance'', ''personal satisfaction'', ''new experiences'']
      else [''positive progress'', ''goal achievement'', ''personal growth'',
        ''favorable results''])"

text \<open>
  \<open>generateOutcome\<close>. Every phrase list has four entries, so the index
  \<open>text.length % 4\<close> is in range. (A category that names a property inherited from
  \<open>Object.prototype\<close> is outside the model.)
\<close>

definition generateOutcome :: "DecisionOption \<Rightarrow> string \<Rightarrow> string" where
  "generateOutcome opt c =
     (let categoryOutcomes = outcomes c;
          outcomeIndex = length (text_opt opt) mod length categoryOutcomes;
          prosCount = lengthOr0 (pros opt);
          consCount = lengthOr0 (cons opt)
      in if prosCount > consCount
         then ''Likely to result in '' @ categoryOutcomes ! outcomeIndex @
              '' with manageable challenges''
         else if consCount > prosCount
         then ''May face obstacles but could lead to '' @ categoryOutcomes ! outcomeIndex @
              '' with careful execution''
         else ''Balanced outcome expected with potential for '' @
              categoryOutcomes ! outcomeIndex)"

text \<open>The number of entries of \<open>ws\<close> that occur in \<open>s\<close>, duplicates counted.\<close>

definition countIncluded :: "string \<Rightarrow> string list \<Rightarrow> int" where
  "countIncluded s ws = int (length (filter (includes_str s) ws))"

text \<open>
  The score of one option before clamping: the callback of \<open>options.map\<close> up to the
  line that clamps. \<open>Math.round\<close> is the identity on the integers it receives.
\<close>

definition rawScore :: "DecisionContext \<Rightarrow> nat \<Rightarrow> DecisionOption \<Rightarrow> int" where
  "rawScore ctx index opt =
     (let optionText = trim (toLowerCase (text_opt opt));
          isAvoidance = list_ex (includes_str optionText) avoidanceWords;
          isProductive = list_ex (includes_str optionText) productiveWords;
          titleWords = filter (\<lambda>w. length w > 3) (split_ws (toLowerCase (title ctx)));
          wordCount = length (split_ws optionText)
      in 50
         + (if isWorkDecision ctx \<and> isAvoidance then - 25 else 0)
         + (if isWorkDecision ctx \<and> isProductive then 15 else 0)
         + 10 * countIncluded optionText titleWords
         + 5 * countIncluded optionText positiveWords
         - 3 * countIncluded optionText negativeWords
         + lengthOr0 (pros opt) * 10
         - lengthOr0 (cons opt) * 7
         + (if 2 \<le> wordCount \<and> wordCount \<le> 10 then 5 else 0)
         + max 0 (3 - int index))"

definition scoreOption :: "DecisionContext \<Rightarrow> nat \<Rightarrow> DecisionOption \<Rightarrow> AIRanking" where
  "scoreOption ctx index opt =
     (let optionText = trim (toLowerCase (text_opt opt));
          isAvoidance = list_ex (includes_str optionText) avoidanceWords;
          isProductive = list_ex (includes_str optionText) productiveWords
      in \<lparr> option_id = id_opt opt,
           rank = 0,
           score = min 95 (max 20 (rawScore ctx index opt)),
           predicted_outcome = generateOutcome opt (category ctx),
           risk_level = (if isAvoidance \<and> isWorkDecision ctx then high
                         else if isProductive then low else medium),
           time_horizon = (if urgency ctx = ''high'' \<or> urgency ctx = ''critical''
                           then ''short-term'' else ''long-term'') \<rparr>)"

text \<open>\<open>options.map((option, index) => ...)\<close>, the indices counted from \<open>i\<close>.\<close>

fun scoreFrom :: "DecisionContext \<Rightarrow> nat \<Rightarrow> DecisionOption list \<Rightarrow> AIRanking list" where
  "scoreFrom ctx i [] = []"
| "scoreFrom ctx i (opt # opts) = scoreOption ctx i opt # scoreFrom ctx (Suc i) opts"

definition scoreOptions :: "DecisionContext \<Rightarrow> AIRanking list" where
  "scoreOptions ctx = scoreFrom ctx 0 (options ctx)"

section \<open>Score normalizer\<close>

text \<open>
  \<open>Array.prototype.sort\<close> is stable, and the comparator \<open>(a, b) => b.score - a.score\<close>
  orders by descending score: the stable insertion sort on the negated score.
\<close>

definition sortByScore :: "AIRanking list \<Rightarrow> AIRanking list" where
  "sortByScore rs = sort_key (\<lambda>r. - score r) rs"

text \<open>\<open>Math.max(...xs)\<close> and \<open>Math.min(...xs)\<close> of a list with first element \<open>x\<close>.\<close>

definition mathMax :: "int \<Rightarrow> int list \<Rightarrow> int" where
  "mathMax x xs = fold max xs x"

definition mathMin :: "int \<Rightarrow> int list \<Rightarrow> int" where
  "mathMin x xs = fold min xs x"

text \<open>The score spread of a non-empty list of rankings.\<close>

definition spreadOf :: "AIRanking \<Rightarrow> AIRanking list \<Rightarrow> int" where
  "spreadOf r rs = mathMax (score r) (map score rs) - mathMin (score r) (map score rs)"

text \<open>\<open>rankings.forEach((r, i) => r.score = Math.max(25, Math.min(95, 85 - i * 15)))\<close>.\<close>

fun reassignFrom :: "nat \<Rightarrow> AIRanking list \<Rightarrow> AIRanking list" where
  "reassignFrom i [] = []"
| "reassignFrom i (r # rs) =
     r\<lparr>score := max 25 (min 95 (85 - int i * 15))\<rparr> # reassignFrom (Suc i) rs"

text \<open>\<open>rankings.forEach((r, i) => r.rank = i + 1)\<close>.\<close>

fun rankFrom :: "nat \<Rightarrow> AIRanking list \<Rightarrow> AIRanking list" where
  "rankFrom i [] = []"
| "rankFrom i (r # rs) = r\<lparr>rank := int i + 1\<rparr> # rankFrom (Suc i) rs"

text \<open>
  The test \<open>maxScore - minScore < 15 && rankings.length > 1\<close>. (On the empty list
  the source compares \<open>-Infinity\<close> with 15 and then finds the length not above 1.)
\<close>

definition lowSpread :: "AIRanking list \<Rightarrow> bool" where
  "lowSpread rs =
     (case rs of [] \<Rightarrow> False | r # rest \<Rightarrow> spreadOf r rest < 15 \<and> length rs > 1)"

text \<open>The differentiation step: sort by descending score, then overwrite the scores.\<close>

definition differentiate :: "AIRanking list \<Rightarrow> AIRanking list" where
  "differentiate rs = (if lowSpread rs then reassignFrom 0 (sortByScore rs) else rs)"

text \<open>The rankings after the second sort and the assignment of ranks.\<close>

definition finalRankings :: "DecisionContext \<Rightarrow> AIRanking list" where
  "finalRankings ctx = rankFrom 0 (sortByScore (differentiate (scoreOptions ctx)))"

section \<open>The analysis\<close>

text \<open>
  \<open>topOption?.text || options[0]?.text || 'Make a choice'\<close>: an absent option and an
  empty text both fall through to the next alternative.
\<close>

definition textOr :: "DecisionOption option \<Rightarrow> string \<Rightarrow> string" where
  "textOr opt alt =
     (case opt of None \<Rightarrow> alt | Some x \<Rightarrow> if text_opt x = [] then alt else text_opt x)"

text \<open>
  \<open>localAnalyzeDecision\<close>. With no option at all, \<open>rankings[0].option_id\<close> reads a
  property of \<open>undefined\<close> and the source throws a \<open>TypeError\<close>. The confidence score
  is \<open>Math.min(0.95, 0.5 + (spread / 100) * 0.4)\<close> in doubles: the literals 0.95 and 0.4
  are the doubles nearest to 19/20 and 2/5, while 0.5, 100 and the spread are doubles
  exactly.
\<close>

definition localAnalyzeDecision :: "DecisionContext \<Rightarrow> js_error + AIAnalysisResult" where
  "localAnalyzeDecision ctx =
     (case finalRankings ctx of
        [] \<Rightarrow> Inl TypeError
      | r # rs \<Rightarrow>
          let topOption = find (\<lambda>opt. id_opt opt = option_id r) (options ctx);
              spread = spreadOf r rs
          in Inr \<lparr> rankings = r # rs,
                   confidence_score =
                     min (round64 (19 / 20))
                       (dadd (1 / 2) (dmul (ddiv (of_int spread) 100) (round64 (2 / 5)))),
                   recommended_action =
                     textOr topOption
                       (textOr (case options ctx of [] \<Rightarrow> None | opt # _ \<Rightarrow> Some opt)
                          ''Make a choice'') \<rparr>)"

section \<open>Weekly metrics: data model\<close>

text \<open>
  The database row \<open>Decision\<close> of the insights engine; its fields carry the suffix
  \<open>_d\<close>. \<open>options\<close> and \<open>chosen_option\<close> are untyped JSON in the source: of the
  option objects only the \<open>id\<close> is read, so \<open>options_d\<close> is the list of the options'
  ids and \<open>chosen_option_d\<close> the id of the chosen option, \<open>None\<close> standing for
  \<open>null\<close>. \<open>time_to_decide\<close> is an integer column (seconds), \<open>confidence_score\<close> a
  decimal one.
\<close>

record Decision =
  id_d :: string
  user_id_d :: string
  title_d :: string
  category_d :: string
  urgency_d :: string
  options_d :: "string list option"
  chosen_option_d :: "string option"
  confidence_score_d :: "rat option"
  time_to_decide :: "int option"
  is_completed :: bool
  created_at :: string

text \<open>The counters that the loop of \<open>calculateFatigueScore\<close> updates.\<close>

record FatigueCounters =
  dailyDecisionCounts :: "(string \<times> nat) list"
  highUrgencyCount :: nat
  totalTimeToDecide :: int
  decisionsWithTime :: nat
  incompleteCount :: nat

section \<open>Fatigue score\<close>

text \<open>
  \<open>dailyDecisionCounts[day] = (dailyDecisionCounts[day] || 0) + 1\<close> on an object read
  as a list of entries in insertion order.
\<close>

fun bumpDay :: "string \<Rightarrow> (string \<times> nat) list \<Rightarrow> (string \<times> nat) list" where
  "bumpDay day [] = [(day, 1)]"
| "bumpDay day ((k, n) # kvs) =
     (if k = day then (k, n + 1) # kvs else (k, n) # bumpDay day kvs)"

text \<open>
  The body of the loop for one decision whose calendar day is \<open>day\<close>. The test
  \<open>if (d.time_to_decide)\<close> is one of truthiness: \<open>null\<close> and \<open>0\<close> both fail it.
\<close>

definition fatigueStep :: "string \<Rightarrow> Decision \<Rightarrow> FatigueCounters \<Rightarrow> FatigueCounters" where
  "fatigueStep day d acc =
     (let acc1 = acc\<lparr>dailyDecisionCounts := bumpDay day (dailyDecisionCounts acc)\<rparr>;
          acc2 = (if urgency_d d = ''high'' \<or> urgency_d d = ''critical''
                  then acc1\<lparr>highUrgencyCount := highUrgencyCount acc1 + 1\<rparr> else acc1);
          acc3 = (case time_to_decide d of
                    None \<Rightarrow> acc2
                  | Some t \<Rightarrow>
                      if t \<noteq> 0
                      then acc2\<lparr>totalTimeToDecide := totalTimeToDecide acc2 + t,
                                decisionsWithTime := decisionsWithTime acc2 + 1\<rparr>
                      else acc2)
      in if \<not> is_completed d then acc3\<lparr>incompleteCount := incompleteCount acc3 + 1\<rparr>
         else acc3)"

text \<open>
  \<open>decisions.forEach\<close>. The calendar day is
  \<open>new Date(d.created_at).toISOString().split('T')[0]\<close>; parsing and formatting the
  date belong to the platform, so the function \<open>isoDay\<close> from a time stamp to its day is
  a parameter. It returns \<open>None\<close> for a string that is no date, where
  \<open>toISOString\<close> throws a \<open>RangeError\<close>.
\<close>

fun fatigueLoop ::
  "(string \<Rightarrow> string option) \<Rightarrow> FatigueCounters \<Rightarrow> Decision list \<Rightarrow> js_error + FatigueCounters"
where
  "fatigueLoop isoDay acc [] = Inr acc"
| "fatigueLoop isoDay acc (d # ds) =
     (case isoDay (created_at d) of
        None \<Rightarrow> Inl RangeError
      | Some day \<Rightarrow> fatigueLoop isoDay (fatigueStep day d acc) ds)"

definition noCounters :: FatigueCounters where
  "noCounters = \<lparr> dailyDecisionCounts = [], highUrgencyCount = 0, totalTimeToDecide = 0,
     decisionsWithTime = 0, incompleteCount = 0 \<rparr>"

text \<open>
  The four summands of the fatigue score, in the order the source adds them: daily
  volume, urgency, time to decide, incompletion. \<open>n\<close> is \<open>decisions.length\<close>.
  Numbers are exact rationals.
\<close>

definition fatigueComponents :: "FatigueCounters \<Rightarrow> nat \<Rightarrow> rat \<times> rat \<times> rat \<times> rat" where
  "fatigueComponents acc n =
     (let avgDailyDecisions =
            of_nat (sum_list (map snd (dailyDecisionCounts acc))) /
            of_nat (length (dailyDecisionCounts acc));
          urgencyRatio = of_nat (highUrgencyCount acc) / of_nat n;
          avgTimeToDecide =
            (if decisionsWithTime acc > 0
             then of_int (totalTimeToDecide acc) / of_nat (decisionsWithTime acc) else 0);
          incompleteRatio = of_nat (incompleteCount acc) / of_nat n
      in (min (avgDailyDecisions / 5) (5 / 2), urgencyRatio * (5 / 2),
          min (avgTimeToDecide / 300) (5 / 2), incompleteRatio * (5 / 2)))"

text \<open>\<open>calculateFatigueScore\<close> of \<open>lib/ai/insights-engine.ts\<close>.\<close>

definition calculateFatigueScore ::
  "(string \<Rightarrow> string option) \<Rightarrow> Decision list \<Rightarrow> js_error + rat" where
  "calculateFatigueScore isoDay decisions =
     (if length decisions = 0 then Inr 0
      else case fatigueLoop isoDay noCounters decisions of
             Inl e \<Rightarrow> Inl e
           | Inr acc \<Rightarrow>
               (case fatigueComponents acc (length decisions) of
                  (c1, c2, c3, c4) \<Rightarrow> Inr (min (0 + c1 + c2 + c3 + c4) 10)))"

text \<open>
  \<open>calculateFatigueScore\<close> of \<open>supabase/functions/weekly-insights/index.ts\<close>: the
  same statements under shorter variable names (\<open>dailyCounts\<close>, \<open>highUrgency\<close>,
  \<open>totalTime\<close>, \<open>timeCount\<close>, \<open>incomplete\<close>), with a \<open>for ... of\<close> loop.
\<close>

definition calculateFatigueScore_weekly ::
  "(string \<Rightarrow> string option) \<Rightarrow> Decision list \<Rightarrow> js_error + rat" where
  "calculateFatigueScore_weekly isoDay decisions =
     (if length decisions = 0 then Inr 0
      else case fatigueLoop isoDay noCounters decisions of
             Inl e \<Rightarrow> Inl e
           | Inr acc \<Rightarrow>
               (case fatigueComponents acc (length decisions) of
                  (c1, c2, c3, c4) \<Rightarrow> Inr (min (0 + c1 + c2 + c3 + c4) 10)))"

section \<open>Choice biases\<close>

record BiasCounters =
  firstOptionCount :: nat
  lastOptionCount :: nat
  highConfidenceLowSuccess :: nat
  longDecisionTime :: nat

text \<open>
  The body of the loop of \<open>analyzeBiases\<close>. The tests on \<open>confidence_score\<close> and on
  \<open>time_to_decide\<close> start with the value's truthiness.
\<close>

definition biasStep :: "Decision \<Rightarrow> BiasCounters \<Rightarrow> BiasCounters" where
  "biasStep d acc =
     (let acc1 = (case (options_d d, chosen_option_d d) of
                    (Some (opt # opts), Some chosen) \<Rightarrow>
                      (let a = (if opt = chosen
                                then acc\<lparr>firstOptionCount := firstOptionCount acc + 1\<rparr>
                                else acc)
                       in if last (opt # opts) = chosen
                          then a\<lparr>lastOptionCount := lastOptionCount a + 1\<rparr> else a)
                  | _ \<Rightarrow> acc);
          acc2 = (case confidence_score_d d of
                    None \<Rightarrow> acc1
                  | Some c \<Rightarrow>
                      if c \<noteq> 0 \<and> c > 4 / 5
                      then acc1\<lparr>highConfidenceLowSuccess := highConfidenceLowSuccess acc1 + 1\<rparr>
                      else acc1)
      in case time_to_decide d of
           None \<Rightarrow> acc2
         | Some t \<Rightarrow>
             if t \<noteq> 0 \<and> t > 600
             then acc2\<lparr>longDecisionTime := longDecisionTime acc2 + 1\<rparr> else acc2)"

text \<open>
  \<open>analyzeBiases\<close> of \<open>lib/ai/insights-engine.ts\<close>: the record of bias fractions as
  its entries in insertion order. \<open>status_quo_bias\<close> is never updated.
\<close>

definition analyzeBiases :: "Decision list \<Rightarrow> (string \<times> rat) list" where
  "analyzeBiases decisions =
     (let acc = fold biasStep decisions
                  \<lparr> firstOptionCount = 0, lastOptionCount = 0,
                    highConfidenceLowSuccess = 0, longDecisionTime = 0 \<rparr>;
          total_count = (if length decisions = 0 then 1 else length decisions)
      in [(''first_option_bias'', of_nat (firstOptionCount acc) / of_nat total_count),
          (''last_option_bias'', of_nat (lastOptionCount acc) / of_nat total_count),
          (''status_quo_bias'', 0),
          (''overconfidence_bias'', of_nat (highConfidenceLowSuccess acc) / of_nat total_count),
          (''analysis_paralysis'', of_nat (longDecisionTime acc) / of_nat total_count)])"

section \<open>Category insight\<close>

text \<open>
  An entry of \<open>UserMetrics.categoryPerformance\<close>: counts of decisions and of positive
  outcomes. The field \<open>total\<close> is named \<open>total_n\<close>.
\<close>

record CategoryStats =
  total_n :: nat
  positive :: nat

definition successRateOf :: "CategoryStats \<Rightarrow> rat" where
  "successRateOf stats =
     (if total_n stats > 0 then of_nat (positive stats) / of_nat (total_n stats) else 0)"

text \<open>
  The \<open>reduce\<close> over \<open>Object.entries(metrics.categoryPerformance)\<close>, seeded with the
  sentinel \<open>['none', {total: 0, positive: 0}]\<close>.
\<close>

definition bestCategory :: "(string \<times> CategoryStats) list \<Rightarrow> string \<times> CategoryStats" where
  "bestCategory categories =
     foldl (\<lambda>best (cat, stats).
              if successRateOf stats > successRateOf (snd best) then (cat, stats) else best)
       (''none'', \<lparr> total_n = 0, positive = 0 \<rparr>) categories"

text \<open>
  Of an \<open>Insight\<close>, the fields that the category section of
  \<open>generateInsightsFromMetrics\<close> fills without formatting a number or a date.
\<close>

record Insight =
  insight_type :: string
  insight_title :: string
  insight_category :: "string option"
  priority :: nat

definition toUpperChar :: "char \<Rightarrow> char" where
  "toUpperChar c =
     (let n = (of_char c :: nat) in if 97 \<le> n \<and> n \<le> 122 then char_of (n - 32) else c)"

text \<open>\<open>s.charAt(0).toUpperCase() + s.slice(1)\<close>.\<close>

definition capitalize :: "string \<Rightarrow> string" where
  "capitalize s = (case s of [] \<Rightarrow> [] | c # cs \<Rightarrow> toUpperChar c # cs)"

text \<open>
  The category section of \<open>generateInsightsFromMetrics\<close>: the insights it pushes for
  the entries \<open>categories\<close> of \<open>metrics.categoryPerformance\<close>.
\<close>

definition categoryInsights :: "(string \<times> CategoryStats) list \<Rightarrow> Insight list" where
  "categoryInsights categories =
     (let best = bestCategory categories
      in if fst best \<noteq> ''none'' \<and> total_n (snd best) \<ge> 3
         then [\<lparr> insight_type = ''category'',
                  insight_title = ''Strong in '' @ capitalize (fst best) @ '' Decisions'',
                  insight_category = Some (fst best),
                  priority = 4 \<rparr>]
         else [])"

section \<open>Example inputs\<close>

text \<open>The example decision of the specification: finish the project, or sleep.\<close>

definition projectOrSleep :: DecisionContext where
  "projectOrSleep =
     \<lparr> title = ''Finish project or sleep'', description = None, category = ''work'',
       urgency = ''high'',
       options =
         [\<lparr> id_opt = ''1'', text_opt = ''Finish the project'', pros = None, cons = None \<rparr>,
          \<lparr> id_opt = ''2'', text_opt = ''Go to sleep'', pros = None, cons = None \<rparr>] \<rparr>"

text \<open>
  Six options with raw scores 46, 52, 51, 50, 50, 50: the spread is below 15, and the
  first option has the lowest raw score.
\<close>

definition lateTie :: DecisionContext where
  "lateTie =
     \<lparr> title = ''x'', description = None, category = ''general'', urgency = ''low'',
       options =
         [\<lparr> id_opt = ''1'', text_opt = ''a'', pros = None, cons = Some [''c''] \<rparr>,
          \<lparr> id_opt = ''2'', text_opt = ''a'', pros = None, cons = None \<rparr>,
          \<lparr> id_opt = ''3'', text_opt = ''a'', pros = None, cons = None \<rparr>,
          \<lparr> id_opt = ''4'', text_opt = ''a'', pros = None, cons = None \<rparr>,
          \<lparr> id_opt = ''5'', text_opt = ''a'', pros = None, cons = None \<rparr>,
          \<lparr> id_opt = ''6'', text_opt = ''a'', pros = None, cons = None \<rparr>] \<rparr>"

text \<open>Two options with the same text, no pros and no cons.\<close>

definition sameTwice :: DecisionContext where
  "sameTwice =
     \<lparr> title = ''Lunch'', description = None, category = ''general'', urgency = ''low'',
       options =
         [\<lparr> id_opt = ''a'', text_opt = ''Pizza'', pros = None, cons = Some [] \<rparr>,
          \<lparr> id_opt = ''b'', text_opt = ''Pizza'', pros = Some [], cons = None \<rparr>] \<rparr>"

section \<open>The order of the result\<close>

text \<open>
  The order in which the normalizer leaves the options: the stable sort of the input
  positions by descending raw score. It is used to describe the result, the source
  sorts the ranking objects themselves.
\<close>

definition rankOrder :: "AIRanking list \<Rightarrow> nat list" where
  "rankOrder rs = sort_key (\<lambda>k. - score (rs ! k)) [0..<length rs]"

section \<open>Example histories\<close>

text \<open>
  An instance of the parameter \<open>isoDay\<close>: for a time stamp written in UTC in the form
  \<open>YYYY-MM-DDTHH:MM:SS.sssZ\<close> the calendar day is its first ten characters.
\<close>

definition utcDay :: "string \<Rightarrow> string option" where
  "utcDay s = Some (take 10 s)"

text \<open>
  A decision of urgency \<open>critical\<close>, taken in 900 seconds and not completed, created
  at the time \<open>t\<close>; and five of them on one day.
\<close>

definition criticalAt :: "string \<Rightarrow> Decision" where
  "criticalAt t =
     \<lparr> id_d = ''d'', user_id_d = ''u'', title_d = ''Release'', category_d = ''work'',
       urgency_d = ''critical'', options_d = None, chosen_option_d = None,
       confidence_score_d = None, time_to_decide = Some 900, is_completed = False,
       created_at = t \<rparr>"

definition fiveCritical :: "Decision list" where
  "fiveCritical =
     [criticalAt ''2024-05-01T08:00:00.000Z'', criticalAt ''2024-05-01T10:30:00.000Z'',
      criticalAt ''2024-05-01T13:00:00.000Z'', criticalAt ''2024-05-01T17:45:00.000Z'',
      criticalAt ''2024-05-01T23:59:59.000Z'']"

text \<open>Two categories, each with decisions and without a positive outcome.\<close>

definition allFailed :: "(string \<times> CategoryStats) list" where
  "allFailed = [(''work'', \<lparr> total_n = 3, positive = 0 \<rparr>),
                (''health'', \<lparr> total_n = 5, positive = 0 \<rparr>)]"

section \<open>Replacing a missing time by zero\<close>

text \<open>
  The decision \<open>d'\<close> is \<open>d\<close>, or \<open>d\<close> with a time to decide of \<open>null\<close> replaced by 0,
  or of 0 replaced by \<open>null\<close>.
\<close>

definition nullZeroSwap :: "Decision \<Rightarrow> Decision \<Rightarrow> bool" where
  "nullZeroSwap d d' =
     (d' = d \<or>
      (time_to_decide d = None \<and> d' = d\<lparr>time_to_decide := Some 0\<rparr>) \<or>
      (time_to_decide d = Some 0 \<and> d' = d\<lparr>time_to_decide := None\<rparr>))"

text \<open>Three decisions, two of them without a time to decide, and the same swapped.\<close>

definition untimed :: "Decision list" where
  "untimed =
     [(criticalAt ''2024-05-01T08:00:00.000Z'')\<lparr>time_to_decide := None\<rparr>,
      (criticalAt ''2024-05-02T09:00:00.000Z'')\<lparr>time_to_decide := Some 0\<rparr>,
      criticalAt ''2024-05-02T10:00:00.000Z'']"

definition untimedSwapped :: "Decision list" where
  "untimedSwapped =
     [(criticalAt ''2024-05-01T08:00:00.000Z'')\<lparr>time_to_decide := Some 0\<rparr>,
      (criticalAt ''2024-05-02T09:00:00.000Z'')\<lparr>time_to_decide := None\<rparr>,
      criticalAt ''2024-05-02T10:00:00.000Z'']"

section \<open>Properties of the rounding\<close>

lemma bitLength_bounds:
  "0 < n \<Longrightarrow> 0 < bitLength n \<and> 2 ^ (bitLength n - 1) \<le> n \<and> n < 2 ^ bitLength n"
proof (induction n rule: bitLength.induct)
  case (1 n)
  show ?case
  proof (cases "n div 2 = 0")
    case True
    with "1.prems" have "n = 1" by presburger
    then show ?thesis by (simp add: bitLength.simps)
  next
    case False
    with "1.prems" have pos: "0 < n div 2" by presburger
    from "1.IH" [OF _ pos] "1.prems"
    have ih: "0 < bitLength (n div 2)" "2 ^ (bitLength (n div 2) - 1) \<le> n div 2"
      "n div 2 < 2 ^ bitLength (n div 2)" by auto
    have bl: "bitLength n = Suc (bitLength (n div 2))"
      using "1.prems" by (subst bitLength.simps) simp
    obtain k where k: "bitLength (n div 2) = Suc k" using ih(1) by (cases "bitLength (n div 2)") auto
    have "2 * 2 ^ k \<le> n" using ih(2) k by (simp; presburger?)
    moreover have "n < 2 * 2 ^ Suc k" using ih(3) k by (simp; presburger?)
    ultimately show ?thesis by (simp add: bl k)
  qed
qed


lemma exponentOf_small:
  "\<not> 1 \<le> x \<Longrightarrow> bitLength \<lfloor>1 / x\<rfloor> = Suc j \<Longrightarrow>
   exponentOf x = (if x = 2 powi (- int j) then - int j else - int (Suc j))"
  by (simp add: exponentOf_def Let_def)

lemma exponentOf_bounds:
  assumes "0 < x"
  shows "2 powi (exponentOf x) \<le> x \<and> x < 2 powi (exponentOf x + 1)"
proof (cases "1 \<le> x")
  case True
  let ?m = "\<lfloor>x\<rfloor>"
  have m: "0 < ?m" using True by (simp add: less_floor_iff)
  from bitLength_bounds [OF m] obtain j where k: "bitLength ?m = Suc j"
    and lo: "2 ^ j \<le> ?m" and hi: "?m < 2 ^ Suc j"
    by (cases "bitLength ?m") auto
  have e: "exponentOf x = int j" using True by (simp add: exponentOf_def k)
  have "(2::rat) ^ j = of_int (2 ^ j)" by simp
  also have "\<dots> \<le> of_int ?m" using lo by (simp only: of_int_le_iff)
  also have "\<dots> \<le> x" by simp
  finally have a: "(2::rat) ^ j \<le> x" .
  from hi have "?m + 1 \<le> 2 ^ Suc j" by simp
  then have "(of_int (?m + 1) :: rat) \<le> of_int (2 ^ Suc j)" by (simp only: of_int_le_iff)
  moreover have "x < of_int (?m + 1)" using floor_correct [of x] by simp
  ultimately have b: "x < 2 ^ Suc j" by simp
  have "2 powi (int j + 1) = (2::rat) ^ Suc j"
    by (metis of_nat_Suc power_int_of_nat add.commute)
  with a b show ?thesis by (simp add: e)
next
  case False
  let ?y = "1 / x"
  let ?m = "\<lfloor>?y\<rfloor>"
  from False assms have y1: "1 < ?y" by simp
  then have m: "0 < ?m" by (simp add: less_floor_iff)
  from bitLength_bounds [OF m] obtain j where k: "bitLength ?m = Suc j"
    and lo: "2 ^ j \<le> ?m" and hi: "?m < 2 ^ Suc j"
    by (cases "bitLength ?m") auto
  have "(2::rat) ^ j = of_int (2 ^ j)" by simp
  also have "\<dots> \<le> of_int ?m" using lo by (simp only: of_int_le_iff)
  also have "\<dots> \<le> ?y" by (rule of_int_floor_le)
  finally have a: "(2::rat) ^ j \<le> ?y" .
  from hi have "?m + 1 \<le> 2 ^ Suc j" by simp
  then have "(of_int (?m + 1) :: rat) \<le> of_int (2 ^ Suc j)" by (simp only: of_int_le_iff)
  moreover have "?y < of_int (?m + 1)" using floor_correct [of ?y] by simp
  ultimately have b: "?y < 2 ^ Suc j" by simp
  have xa: "x \<le> 1 / 2 ^ j"
    using a assms by (simp add: field_simps)
  have xb: "1 / 2 ^ Suc j < x"
    using b assms by (simp add: field_simps)
  have p0: "2 powi (- int j) = (1::rat) / 2 ^ j"
    by (simp add: power_int_minus_divide)
  have p1: "2 powi (- int (Suc j)) = (1::rat) / 2 ^ Suc j"
    by (simp only: power_int_minus_divide power_int_of_nat)
  have p2: "2 powi (1 - int j) = (2::rat) / 2 ^ j"
    by (simp add: power_int_diff)
  note ex = exponentOf_small [OF False k]
  show ?thesis
  proof (cases "x = 2 powi (- int j)")
    case True
    with ex have e: "exponentOf x = - int j"
      by metis
    have l: "2 powi (exponentOf x) = x"
      unfolding e using True by simp
    have "2 powi (- int j + 1) = (2::rat) / 2 ^ j"
      using p2 by (simp add: add.commute)
    moreover have "x = 1 / 2 ^ j" using True p0 by simp
    ultimately have h: "2 powi (exponentOf x + 1) = 2 * x"
      unfolding e by simp
    show ?thesis
      unfolding l h using assms by simp
  next
    case ne: False
    with ex have e: "exponentOf x = - int (Suc j)"
      by metis
    have "- int (Suc j) + 1 = - int j" by simp
    moreover have "x < 1 / 2 ^ j" using xa ne p0 by simp
    ultimately show ?thesis using xb p0 p1 by (simp add: e)
  qed
qed

lemma exponent_unique:
  fixes x :: rat
  assumes "2 powi e \<le> x" "x < 2 powi (e + 1)" "2 powi e' \<le> x" "x < 2 powi (e' + 1)"
  shows "e = e'"
proof (rule ccontr)
  assume "e \<noteq> e'"
  then consider "e + 1 \<le> e'" | "e' + 1 \<le> e" by linarith
  then show False
  proof cases
    case 1
    then have "(2::rat) powi (e + 1) \<le> 2 powi e'" by (rule power_int_increasing) simp
    with assms show False by simp
  next
    case 2
    then have "(2::rat) powi (e' + 1) \<le> 2 powi e" by (rule power_int_increasing) simp
    with assms show False by simp
  qed
qed

lemma exponentOf_eq:
  assumes "2 powi e \<le> x" "x < 2 powi (e + 1)"
  shows "exponentOf x = e"
proof -
  have "0 < x" using zero_less_power_int [of "2::rat" e] assms(1) by linarith
  from exponentOf_bounds [OF this] assms show ?thesis
    by (intro exponent_unique [of "exponentOf x" x e]) simp_all
qed

lemma roundHalfEven_floor: "\<lfloor>q\<rfloor> \<le> roundHalfEven q \<and> roundHalfEven q \<le> \<lfloor>q\<rfloor> + 1"
  by (simp add: roundHalfEven_def Let_def)

lemma roundHalfEven_near:
  assumes "of_int n - 1 / 2 < q" "q < of_int n + 1 / 2"
  shows "roundHalfEven q = n"
proof (cases "of_int n \<le> q")
  case True
  with assms have "\<lfloor>q\<rfloor> = n" by (intro floor_unique) simp_all
  with assms show ?thesis by (simp add: roundHalfEven_def Let_def)
next
  case False
  with assms have "\<lfloor>q\<rfloor> = n - 1" by (intro floor_unique) simp_all
  with assms False show ?thesis by (simp add: roundHalfEven_def Let_def)
qed

lemma round64_eval:
  assumes "2 powi e \<le> x" "x < 2 powi (e + 1)"
    and "of_int n - 1 / 2 < x / 2 powi (e - 52)" "x / 2 powi (e - 52) < of_int n + 1 / 2"
  shows "round64 x = of_int n * 2 powi (e - 52)"
proof -
  have pos: "0 < x" using zero_less_power_int [of "2::rat" e] assms(1) by linarith
  have e: "exponentOf \<bar>x\<bar> = e" using pos assms(1,2) by (simp add: exponentOf_eq)
  have "roundHalfEven (x / 2 powi (e - 52)) = n"
    using assms(3,4) by (rule roundHalfEven_near)
  with pos e show ?thesis by (simp add: round64_def Let_def)
qed

lemma round64_nonneg: "0 \<le> x \<Longrightarrow> 0 \<le> round64 x"
proof -
  assume x: "0 \<le> x"
  show ?thesis
  proof (cases "x = 0")
    case True
    then show ?thesis by (simp add: round64_def)
  next
    case False
    with x have pos: "0 < x" by simp
    let ?u = "(2::rat) powi (exponentOf \<bar>x\<bar> - 52)"
    have u: "0 < ?u" by simp
    have "0 \<le> x / ?u" using pos u by simp
    then have "0 \<le> \<lfloor>x / ?u\<rfloor>" by simp
    with roundHalfEven_floor [of "x / ?u"] have "0 \<le> roundHalfEven (x / ?u)" by linarith
    with pos u show ?thesis by (simp add: round64_def Let_def)
  qed
qed

lemma round64_ge_half:
  assumes "1 / 2 \<le> x"
  shows "1 / 2 \<le> round64 x"
proof -
  from assms have pos: "0 < x" by simp
  let ?e = "exponentOf x"
  let ?u = "(2::rat) powi (?e - 52)"
  have u: "0 < ?u" by simp
  from exponentOf_bounds [OF pos] have lo: "2 powi ?e \<le> x" and hi: "x < 2 powi (?e + 1)"
    by simp_all
  have e: "- 1 \<le> ?e"
  proof (rule ccontr)
    assume "\<not> - 1 \<le> ?e"
    then have "?e + 1 \<le> - 1" by simp
    then have "(2::rat) powi (?e + 1) \<le> 2 powi (- 1)" by (rule power_int_increasing) simp
    with hi assms show False by simp
  qed
  have split: "(2::rat) powi ?e = 2 powi 52 * ?u"
    by (simp add: power_int_diff)
  have "(2::rat) powi 52 = of_int (2 ^ 52)" by simp
  have "of_int (2 ^ 52) \<le> x / ?u"
    using lo u split by (simp add: field_simps)
  then have "2 ^ 52 \<le> \<lfloor>x / ?u\<rfloor>" by (simp only: le_floor_iff)
  with roundHalfEven_floor [of "x / ?u"] have "2 ^ 52 \<le> roundHalfEven (x / ?u)" by linarith
  then have "(of_int (2 ^ 52) :: rat) \<le> of_int (roundHalfEven (x / ?u))"
    by (simp only: of_int_le_iff)
  then have step: "of_int (2 ^ 52) * ?u \<le> of_int (roundHalfEven (x / ?u)) * ?u"
    using u by (simp only: mult_le_cancel_right_pos)
  have r: "round64 x = of_int (roundHalfEven (x / ?u)) * ?u"
    using pos by (simp add: round64_def Let_def)
  have "(2::rat) powi (- 1) \<le> 2 powi ?e" using e by (rule power_int_increasing) simp
  then have "(1::rat) / 2 \<le> 2 powi ?e" by simp
  also have "\<dots> = of_int (2 ^ 52) * ?u" using split by simp
  also note step
  also note r [symmetric]
  finally show ?thesis .
qed


lemma roundHalfEven_tie:
  assumes "q = of_int f + 1 / 2" and "n = (if even f then f else f + 1)"
  shows "roundHalfEven q = n"
proof -
  have "\<lfloor>q\<rfloor> = f" unfolding assms(1) by (intro floor_unique) simp_all
  then show ?thesis by (simp add: roundHalfEven_def Let_def assms)
qed

lemma round64_tie:
  assumes "2 powi e \<le> x" "x < 2 powi (e + 1)"
    and "x / 2 powi (e - 52) = of_int f + 1 / 2" and "n = (if even f then f else f + 1)"
  shows "round64 x = of_int n * 2 powi (e - 52)"
proof -
  have pos: "0 < x" using zero_less_power_int [of "2::rat" e] assms(1) by linarith
  have e: "exponentOf \<bar>x\<bar> = e" using pos assms(1,2) by (simp add: exponentOf_eq)
  have "roundHalfEven (x / 2 powi (e - 52)) = n"
    using assms(3,4) by (rule roundHalfEven_tie)
  with pos e show ?thesis by (simp add: round64_def Let_def)
qed

text \<open>
  The doubles that occur on the way to the confidence score at the final spreads 51 and
  20: the literals 0.95 and 0.4, the quotient, the product and the sum. At spread 20
  the result is the double printed as 0.5800000000000001, not 29/50.
\<close>

lemma round64_c1: "round64 (19 / 20) = 4278419646001971 / 4503599627370496"
proof -
  have "round64 (19 / 20) = of_int 8556839292003942 * 2 powi (-1 - 52)"
    by (rule round64_eval) simp_all
  then show ?thesis by simp
qed

lemma round64_c2: "round64 (2 / 5) = 3602879701896397 / 9007199254740992"
proof -
  have "round64 (2 / 5) = of_int 7205759403792794 * 2 powi (-2 - 52)"
    by (rule round64_eval) simp_all
  then show ?thesis by simp
qed

lemma round64_c3: "round64 (51 / 100) = 2296835809958953 / 4503599627370496"
proof -
  have "round64 (51 / 100) = of_int 4593671619917906 * 2 powi (-1 - 52)"
    by (rule round64_eval) simp_all
  then show ?thesis by simp
qed

lemma round64_c4: "round64 (8275223118289882136452828592341 / 40564819207303340847894502572032) = 3674937295934325 / 18014398509481984"
proof -
  have "round64 (8275223118289882136452828592341 / 40564819207303340847894502572032) = of_int 7349874591868650 * 2 powi (-3 - 52)"
    by (rule round64_eval) simp_all
  then show ?thesis by simp
qed

lemma round64_c5: "round64 (12682136550675317 / 18014398509481984) = 3170534137668829 / 4503599627370496"
proof -
  have "round64 (12682136550675317 / 18014398509481984) = of_int 6341068275337658 * 2 powi (-1 - 52)"
    by (rule round64_tie [where f = 6341068275337658]) simp_all
  then show ?thesis by simp
qed

lemma round64_c6: "round64 (1 / 5) = 3602879701896397 / 18014398509481984"
proof -
  have "round64 (1 / 5) = of_int 7205759403792794 * 2 powi (-3 - 52)"
    by (rule round64_eval) simp_all
  then show ?thesis by simp
qed

lemma round64_c7: "round64 (12980742146337070512478121581609 / 162259276829213363391578010288128) = 1441151880758559 / 18014398509481984"
proof -
  have "round64 (12980742146337070512478121581609 / 162259276829213363391578010288128) = of_int 5764607523034236 * 2 powi (-4 - 52)"
    by (rule round64_eval) simp_all
  then show ?thesis by simp
qed

lemma round64_c8: "round64 (10448351135499551 / 18014398509481984) = 326510972984361 / 562949953421312"
proof -
  have "round64 (10448351135499551 / 18014398509481984) = of_int 5224175567749776 * 2 powi (-1 - 52)"
    by (rule round64_tie [where f = 5224175567749775]) simp_all
  then show ?thesis by simp
qed

lemma confidence_at_51:
  "min (round64 (19 / 20)) (dadd (1 / 2) (dmul (ddiv 51 100) (round64 (2 / 5)))) =
   3170534137668829 / 4503599627370496"
  by (simp add: dadd_def dmul_def ddiv_def
      round64_c1 round64_c2 round64_c3 round64_c4 round64_c5 round64_c6 round64_c7
      round64_c8)

lemma confidence_at_20:
  "min (round64 (19 / 20)) (dadd (1 / 2) (dmul (ddiv 20 100) (round64 (2 / 5)))) =
   326510972984361 / 562949953421312"
  by (simp add: dadd_def dmul_def ddiv_def
      round64_c1 round64_c2 round64_c3 round64_c4 round64_c5 round64_c6 round64_c7
      round64_c8)

section \<open>Properties of the scorer and the normalizer\<close>

lemma length_scoreFrom: "length (scoreFrom ctx i opts) = length opts"
  by (induction opts arbitrary: i) auto

lemma score_scoreOption: "20 \<le> score (scoreOption ctx i opt) \<and> score (scoreOption ctx i opt) \<le> 95"
  by (simp add: scoreOption_def Let_def)

lemma score_scoreFrom:
  "r \<in> set (scoreFrom ctx i opts) \<Longrightarrow> 20 \<le> score r \<and> score r \<le> 95"
  by (induction opts arbitrary: i) (auto simp: score_scoreOption)

lemma length_reassignFrom: "length (reassignFrom i rs) = length rs"
  by (induction rs arbitrary: i) auto

lemma score_reassignFrom:
  "r \<in> set (reassignFrom i rs) \<Longrightarrow> 25 \<le> score r \<and> score r \<le> 95"
  by (induction rs arbitrary: i) auto

lemma nth_reassignFrom:
  "k < length rs \<Longrightarrow>
   reassignFrom i rs ! k = (rs ! k)\<lparr>score := max 25 (min 95 (85 - int (i + k) * 15))\<rparr>"
proof (induction rs arbitrary: i k)
  case Nil
  then show ?case by simp
next
  case (Cons r rs)
  show ?case
  proof (cases k)
    case 0
    then show ?thesis by simp
  next
    case (Suc k')
    with Cons.prems have "k' < length rs" by simp
    from Cons.IH [OF this, of "Suc i"] Suc show ?thesis by simp
  qed
qed

lemma sorted_reassignFrom: "sorted (map (\<lambda>r. - score r) (reassignFrom i rs))"
proof (induction rs arbitrary: i)
  case Nil
  then show ?case by simp
next
  case (Cons r rs)
  have "\<And>x. x \<in> set (reassignFrom (Suc i) rs) \<Longrightarrow> score x \<le> max 25 (min 95 (85 - int i * 15))"
  proof -
    fix x assume "x \<in> set (reassignFrom (Suc i) rs)"
    then obtain k where k: "k < length rs" and x: "x = reassignFrom (Suc i) rs ! k"
      by (auto simp: in_set_conv_nth length_reassignFrom)
    show "score x \<le> max 25 (min 95 (85 - int i * 15))"
      unfolding x nth_reassignFrom [OF k] by simp
  qed
  with Cons.IH [of "Suc i"] show ?case by auto
qed

lemma length_rankFrom: "length (rankFrom i rs) = length rs"
  by (induction rs arbitrary: i) auto

lemma nth_rankFrom:
  "k < length rs \<Longrightarrow> rankFrom i rs ! k = (rs ! k)\<lparr>rank := int (i + k) + 1\<rparr>"
proof (induction rs arbitrary: i k)
  case Nil
  then show ?case by simp
next
  case (Cons r rs)
  show ?case
  proof (cases k)
    case 0
    then show ?thesis by simp
  next
    case (Suc k')
    with Cons.prems have "k' < length rs" by simp
    from Cons.IH [OF this, of "Suc i"] Suc show ?thesis by simp
  qed
qed

lemma map_score_rankFrom: "map score (rankFrom i rs) = map score rs"
  by (induction rs arbitrary: i) auto

lemma map_option_id_rankFrom: "map option_id (rankFrom i rs) = map option_id rs"
  by (induction rs arbitrary: i) auto

lemma map_rank_rankFrom: "map rank (rankFrom i rs) = map (\<lambda>k. int k + 1) [i..<i + length rs]"
proof (induction rs arbitrary: i)
  case Nil
  then show ?case by simp
next
  case (Cons r rs)
  have "[i..<i + length (r # rs)] = i # [Suc i..<Suc i + length rs]"
    by (simp add: upt_rec)
  with Cons.IH [of "Suc i"] show ?case by simp
qed

lemma mathMax_Max: "mathMax x xs = Max (set (x # xs))"
  unfolding mathMax_def by (rule Max.set_eq_fold [symmetric])

lemma mathMin_Min: "mathMin x xs = Min (set (x # xs))"
  unfolding mathMin_def by (rule Min.set_eq_fold [symmetric])

lemma spreadOf_bounds:
  assumes "\<And>x. x \<in> set (r # rs) \<Longrightarrow> lo \<le> score x \<and> score x \<le> hi"
  shows "0 \<le> spreadOf r rs \<and> spreadOf r rs \<le> hi - lo"
proof -
  let ?S = "set (score r # map score rs)"
  have fin: "finite ?S" and ne: "?S \<noteq> {}" by simp_all
  have mx: "Max ?S \<in> ?S" and mn: "Min ?S \<in> ?S"
    using Max_in [OF fin ne] Min_in [OF fin ne] by blast+
  have all: "\<And>s. s \<in> ?S \<Longrightarrow> lo \<le> s \<and> s \<le> hi"
    using assms by auto
  have "Min ?S \<le> score r" "score r \<le> Max ?S" by simp_all
  then have "Min ?S \<le> Max ?S" by linarith
  moreover have "Max ?S \<le> hi" using all [OF mx] by simp
  moreover have "lo \<le> Min ?S" using all [OF mn] by simp
  ultimately show ?thesis
    unfolding spreadOf_def mathMax_Max mathMin_Min by linarith
qed

lemma length_scoreOptions: "length (scoreOptions ctx) = length (options ctx)"
  by (simp add: scoreOptions_def length_scoreFrom)

lemma length_differentiate: "length (differentiate rs) = length rs"
  by (simp add: differentiate_def length_reassignFrom sortByScore_def)

lemma length_finalRankings: "length (finalRankings ctx) = length (options ctx)"
  by (simp add: finalRankings_def length_rankFrom sortByScore_def length_differentiate
      length_scoreOptions)

lemma score_differentiate:
  assumes "r \<in> set (differentiate (scoreOptions ctx))"
  shows "20 \<le> score r \<and> score r \<le> 95 \<and> (lowSpread (scoreOptions ctx) \<longrightarrow> 25 \<le> score r)"
proof (cases "lowSpread (scoreOptions ctx)")
  case True
  with assms have "r \<in> set (reassignFrom 0 (sortByScore (scoreOptions ctx)))"
    by (simp add: differentiate_def)
  from score_reassignFrom [OF this] show ?thesis by simp
next
  case False
  with assms have "r \<in> set (scoreFrom ctx 0 (options ctx))"
    by (simp add: differentiate_def scoreOptions_def)
  from score_scoreFrom [OF this] False show ?thesis by simp
qed

lemma set_score_finalRankings:
  "score ` set (finalRankings ctx) = score ` set (differentiate (scoreOptions ctx))"
proof -
  have "set (map score (finalRankings ctx)) =
        set (map score (sortByScore (differentiate (scoreOptions ctx))))"
    by (simp only: finalRankings_def map_score_rankFrom)
  then show ?thesis by (simp add: sortByScore_def)
qed

lemma score_finalRankings:
  assumes "r \<in> set (finalRankings ctx)"
  shows "20 \<le> score r \<and> score r \<le> 95 \<and> (lowSpread (scoreOptions ctx) \<longrightarrow> 25 \<le> score r)"
proof -
  from assms have "score r \<in> score ` set (differentiate (scoreOptions ctx))"
    unfolding set_score_finalRankings [symmetric] by (rule imageI)
  then obtain r' where "r' \<in> set (differentiate (scoreOptions ctx))" and "score r = score r'"
    by auto
  with score_differentiate [of r' ctx] show ?thesis by simp
qed

lemma localAnalyzeDecision_Inr:
  assumes "options ctx \<noteq> []"
  obtains r rs where "finalRankings ctx = r # rs"
    and "localAnalyzeDecision ctx =
         Inr \<lparr> rankings = r # rs,
               confidence_score =
                 min (round64 (19 / 20))
                   (dadd (1 / 2) (dmul (ddiv (of_int (spreadOf r rs)) 100) (round64 (2 / 5)))),
               recommended_action =
                 textOr (find (\<lambda>opt. id_opt opt = option_id r) (options ctx))
                   (textOr (case options ctx of [] \<Rightarrow> None | opt # _ \<Rightarrow> Some opt)
                      ''Make a choice'') \<rparr>"
proof -
  from assms have "finalRankings ctx \<noteq> []"
    using length_finalRankings [of ctx] by auto
  then obtain r rs where eq: "finalRankings ctx = r # rs"
    by (cases "finalRankings ctx") auto
  then show ?thesis
    using that [of r rs] by (simp add: localAnalyzeDecision_def Let_def)
qed

text \<open>
  Claim C2. For a context with at least two options the analysis returns a result, and
  every score of its rankings lies between 20 and 95: the clamped raw scores do when
  they are kept, and when the low-spread reassignment replaces them the new scores lie
  between 25 and 95.
\<close>

theorem score_bounds:
  assumes "2 \<le> length (options ctx)"
  shows "\<exists>res. localAnalyzeDecision ctx = Inr res \<and>
           (\<forall>r \<in> set (rankings res). 20 \<le> score r \<and> score r \<le> 95) \<and>
           (lowSpread (scoreOptions ctx) \<longrightarrow>
              (\<forall>r \<in> set (rankings res). 25 \<le> score r \<and> score r \<le> 95))"
proof -
  from assms have "options ctx \<noteq> []" by auto
  then obtain r rs res where fin: "finalRankings ctx = r # rs"
    and res: "localAnalyzeDecision ctx = Inr res" and rk: "rankings res = r # rs"
    by (rule localAnalyzeDecision_Inr) simp
  have "20 \<le> score x \<and> score x \<le> 95 \<and> (lowSpread (scoreOptions ctx) \<longrightarrow> 25 \<le> score x)"
    if "x \<in> set (rankings res)" for x
  proof -
    from that have "x \<in> set (finalRankings ctx)" by (simp add: rk fin)
    then show ?thesis by (rule score_finalRankings)
  qed
  with res show ?thesis by blast
qed

theorem score_bounds_witness:
  "2 \<le> length (options projectOrSleep) \<and>
   (\<exists>res. localAnalyzeDecision projectOrSleep = Inr res \<and>
      list_all (\<lambda>r. 20 \<le> score r \<and> score r \<le> 95) (rankings res))"
proof -
  have h: "2 \<le> length (options projectOrSleep)"
    by (simp add: projectOrSleep_def)
  from score_bounds [OF h] h show ?thesis
    by (auto simp: list_all_iff)
qed

lemma rankings_of_result:
  assumes "localAnalyzeDecision ctx = Inr res"
  shows "rankings res = finalRankings ctx"
  using assms
  by (cases "finalRankings ctx") (auto simp: localAnalyzeDecision_def Let_def)

lemma projectOrSleep_rankings:
  "finalRankings projectOrSleep =
     [\<lparr> option_id = ''1'', rank = 1, score = 93,
        predicted_outcome =
          ''Balanced outcome expected with potential for personal growth'',
        risk_level = low, time_horizon = ''short-term'' \<rparr>,
      \<lparr> option_id = ''2'', rank = 2, score = 42,
        predicted_outcome =
          ''Balanced outcome expected with potential for favorable results'',
        risk_level = high, time_horizon = ''short-term'' \<rparr>]"
  by code_simp

text \<open>
  Claim C4. For a context with at least two options the analysis returns as many
  rankings as there are options, and the confidence score is
  \<open>min(0.95, 0.5 + (finalSpread / 100) * 0.4)\<close> evaluated in doubles, where
  \<open>finalSpread\<close> is the largest minus the smallest score of the returned rankings. It
  is at least 0.5 and at most the double 0.95, which is below 19/20.
\<close>

theorem confidence_formula:
  assumes "2 \<le> length (options ctx)"
  shows "\<exists>res. localAnalyzeDecision ctx = Inr res \<and>
           length (rankings res) = length (options ctx) \<and>
           confidence_score res =
             min (round64 (19 / 20))
               (dadd (1 / 2)
                  (dmul (ddiv (of_int (Max (score ` set (rankings res)) -
                                       Min (score ` set (rankings res)))) 100)
                     (round64 (2 / 5)))) \<and>
           1 / 2 \<le> confidence_score res \<and> confidence_score res \<le> round64 (19 / 20) \<and>
           confidence_score res \<le> 19 / 20"
proof -
  from assms have "options ctx \<noteq> []" by auto
  then obtain r rs res where fin: "finalRankings ctx = r # rs"
    and res: "localAnalyzeDecision ctx = Inr res" and rk: "rankings res = r # rs"
    and cf: "confidence_score res =
             min (round64 (19 / 20))
               (dadd (1 / 2) (dmul (ddiv (of_int (spreadOf r rs)) 100) (round64 (2 / 5))))"
    by (rule localAnalyzeDecision_Inr) simp
  have len: "length (rankings res) = length (options ctx)"
    by (simp only: rk fin [symmetric] length_finalRankings)
  have sp: "spreadOf r rs = Max (score ` set (r # rs)) - Min (score ` set (r # rs))"
    by (simp add: spreadOf_def mathMax_Max mathMin_Min)
  have "20 \<le> score x \<and> score x \<le> 95" if "x \<in> set (r # rs)" for x
    using score_finalRankings [of x ctx] that by (simp only: fin [symmetric])
  from spreadOf_bounds [of r rs 20 95, OF this] have "0 \<le> spreadOf r rs" by simp
  then have "(0::rat) \<le> of_int (spreadOf r rs) / 100" by simp
  then have "0 \<le> ddiv (of_int (spreadOf r rs)) 100"
    unfolding ddiv_def by (rule round64_nonneg)
  moreover have "0 \<le> round64 (2 / 5)" by (rule round64_nonneg) simp
  ultimately have "0 \<le> ddiv (of_int (spreadOf r rs)) 100 * round64 (2 / 5)"
    by (rule mult_nonneg_nonneg)
  then have "0 \<le> dmul (ddiv (of_int (spreadOf r rs)) 100) (round64 (2 / 5))"
    unfolding dmul_def by (rule round64_nonneg)
  then have "1 / 2 \<le> 1 / 2 + dmul (ddiv (of_int (spreadOf r rs)) 100) (round64 (2 / 5))"
    by simp
  then have "1 / 2 \<le> dadd (1 / 2) (dmul (ddiv (of_int (spreadOf r rs)) 100) (round64 (2 / 5)))"
    unfolding dadd_def by (rule round64_ge_half)
  moreover have "1 / 2 \<le> round64 (19 / 20)" by (rule round64_ge_half) simp
  ultimately have lo: "1 / 2 \<le> confidence_score res"
    unfolding cf by simp
  have hi: "confidence_score res \<le> round64 (19 / 20)"
    unfolding cf by simp
  have "round64 (19 / 20) \<le> 19 / 20"
    unfolding round64_c1 by simp
  with hi have hi': "confidence_score res \<le> 19 / 20" by simp
  from res len cf sp rk lo hi hi' show ?thesis by (metis (no_types))
qed

theorem confidence_formula_witness:
  "2 \<le> length (options projectOrSleep) \<and>
   (\<exists>res. localAnalyzeDecision projectOrSleep = Inr res \<and> length (rankings res) = 2 \<and>
      map score (rankings res) = [93, 42] \<and>
      confidence_score res = 3170534137668829 / 4503599627370496)"
proof -
  have h: "2 \<le> length (options projectOrSleep)"
    by (simp add: projectOrSleep_def)
  from confidence_formula [OF h] obtain res
    where res: "localAnalyzeDecision projectOrSleep = Inr res"
      and cf: "confidence_score res =
             min (round64 (19 / 20))
               (dadd (1 / 2)
                  (dmul (ddiv (of_int (Max (score ` set (rankings res)) -
                                       Min (score ` set (rankings res)))) 100)
                     (round64 (2 / 5))))"
    by blast
  have rk: "rankings res = finalRankings projectOrSleep"
    using res by (rule rankings_of_result)
  have sc: "map score (rankings res) = [93, 42]" and len: "length (rankings res) = 2"
    by (simp_all add: rk projectOrSleep_rankings)
  have "Max (score ` set (rankings res)) - Min (score ` set (rankings res)) = 51"
    by (simp add: rk projectOrSleep_rankings)
  with cf have "confidence_score res = 3170534137668829 / 4503599627370496"
    by (simp add: confidence_at_51)
  with res sc len
  have "localAnalyzeDecision projectOrSleep = Inr res \<and> length (rankings res) = 2 \<and>
        map score (rankings res) = [93, 42] \<and>
        confidence_score res = 3170534137668829 / 4503599627370496"
    by (intro conjI)
  then have "\<exists>res. localAnalyzeDecision projectOrSleep = Inr res \<and> length (rankings res) = 2 \<and>
        map score (rankings res) = [93, 42] \<and>
        confidence_score res = 3170534137668829 / 4503599627370496"
    by (rule exI)
  with h show ?thesis by (rule conjI)
qed

text \<open>
  Claim C5. On the example context, with no pros and no cons, the analysis ranks option
  1 first and option 2 second, option 1 scores strictly higher (93 against 42), the
  recommended action is the text of option 1, the risk levels are low and high, and
  both time horizons are short-term.
\<close>

theorem project_or_sleep_example:
  "\<exists>res r1 r2. localAnalyzeDecision projectOrSleep = Inr res \<and> rankings res = [r1, r2] \<and>
     option_id r1 = ''1'' \<and> option_id r2 = ''2'' \<and> rank r1 = 1 \<and> rank r2 = 2 \<and>
     score r1 = 93 \<and> score r2 = 42 \<and> score r2 < score r1 \<and>
     risk_level r1 = low \<and> risk_level r2 = high \<and>
     time_horizon r1 = ''short-term'' \<and> time_horizon r2 = ''short-term'' \<and>
     recommended_action res = ''Finish the project'' \<and>
     map text_opt (filter (\<lambda>opt. id_opt opt = option_id r1) (options projectOrSleep)) =
       [''Finish the project'']"
  by (simp add: localAnalyzeDecision_def projectOrSleep_rankings Let_def textOr_def)
    (simp add: projectOrSleep_def)

section \<open>Order of the rankings\<close>

lemma insort_key_map:
  "insort_key f (g x) (map g ys) = map g (insort_key (\<lambda>y. f (g y)) x ys)"
  by (induction ys) auto

lemma sort_key_map: "sort_key f (map g xs) = map g (sort_key (\<lambda>x. f (g x)) xs)"
  by (induction xs) (auto simp: insort_key_map)

lemma insort_key_lex:
  fixes f :: "nat \<Rightarrow> int"
  assumes "sorted_wrt (\<lambda>a b. f a < f b \<or> (f a = f b \<and> a < b)) ys"
    and "\<forall>y \<in> set ys. x < y"
  shows "sorted_wrt (\<lambda>a b. f a < f b \<or> (f a = f b \<and> a < b)) (insort_key f x ys)"
  using assms
proof (induction ys)
  case Nil
  then show ?case by simp
next
  case (Cons y ys)
  show ?case
  proof (cases "f x \<le> f y")
    case True
    have "f x < f z \<or> (f x = f z \<and> x < z)" if "z \<in> set (y # ys)" for z
    proof -
      have "f y \<le> f z" using Cons.prems(1) that by auto
      moreover have "x < z" using Cons.prems(2) that by auto
      ultimately show ?thesis using True by auto
    qed
    with True Cons.prems(1) show ?thesis by simp
  next
    case False
    have "sorted_wrt (\<lambda>a b. f a < f b \<or> (f a = f b \<and> a < b)) (insort_key f x ys)"
      using Cons by simp
    moreover have "f y < f z \<or> (f y = f z \<and> y < z)" if "z \<in> set (insort_key f x ys)" for z
      using that False Cons.prems(1) by (auto simp: set_insort_key)
    ultimately show ?thesis using False by simp
  qed
qed

lemma sort_key_lex:
  fixes f :: "nat \<Rightarrow> int"
  shows "sorted_wrt (\<lambda>a b. f a < f b \<or> (f a = f b \<and> a < b)) (sort_key f [i..<n])"
proof (induction "n - i" arbitrary: i)
  case 0
  then show ?case by simp
next
  case (Suc m)
  then have lt: "i < n" and m: "m = n - Suc i" by auto
  have "[i..<n] = i # [Suc i..<n]" using lt by (simp add: upt_rec)
  moreover have "\<forall>y \<in> set (sort_key f [Suc i..<n]). i < y" by simp
  ultimately show ?case
    using insort_key_lex [OF Suc.hyps(1) [OF m], of i] by simp
qed

lemma length_rankOrder: "length (rankOrder rs) = length rs"
  by (simp add: rankOrder_def)

lemma set_rankOrder: "set (rankOrder rs) = {0..<length rs}"
  by (simp add: rankOrder_def)

lemma distinct_rankOrder: "distinct (rankOrder rs)"
  by (simp add: rankOrder_def)

lemma rankOrder_less: "i < length rs \<Longrightarrow> rankOrder rs ! i < length rs"
  using set_rankOrder [of rs] nth_mem [of i "rankOrder rs"]
  by (simp add: length_rankOrder)

lemma sortByScore_rankOrder: "sortByScore rs = map (\<lambda>k. rs ! k) (rankOrder rs)"
proof -
  have "sort_key (\<lambda>r. - score r) (map (\<lambda>k. rs ! k) [0..<length rs]) =
        map (\<lambda>k. rs ! k) (sort_key (\<lambda>k. - score (rs ! k)) [0..<length rs])"
    by (rule sort_key_map)
  then show ?thesis by (simp add: sortByScore_def rankOrder_def map_nth)
qed

lemma sortByScore_id: "sorted (map (\<lambda>r. - score r) rs) \<Longrightarrow> sortByScore rs = rs"
  unfolding sortByScore_def by (rule sort_key_id_if_sorted)

lemma rankOrder_sorted:
  assumes "i < j" and "j < length rs"
  shows "score (rs ! (rankOrder rs ! j)) < score (rs ! (rankOrder rs ! i)) \<or>
         (score (rs ! (rankOrder rs ! j)) = score (rs ! (rankOrder rs ! i)) \<and>
          rankOrder rs ! i < rankOrder rs ! j)"
proof -
  let ?f = "\<lambda>k. - score (rs ! k)"
  have "sorted_wrt (\<lambda>a b. ?f a < ?f b \<or> (?f a = ?f b \<and> a < b)) (rankOrder rs)"
    unfolding rankOrder_def by (rule sort_key_lex)
  from sorted_wrt_nth_less [OF this assms(1)] assms(2) show ?thesis
    by (auto simp: length_rankOrder)
qed

lemma finalRankings_nth:
  assumes "i < length (options ctx)"
  shows "finalRankings ctx ! i =
         (scoreOptions ctx ! (rankOrder (scoreOptions ctx) ! i))
           \<lparr>score := (if lowSpread (scoreOptions ctx) then max 25 (min 95 (85 - int i * 15))
                      else score (scoreOptions ctx ! (rankOrder (scoreOptions ctx) ! i))),
            rank := int i + 1\<rparr>"
proof -
  let ?rs = "scoreOptions ctx"
  have len: "i < length ?rs" using assms by (simp add: length_scoreOptions)
  have srt: "sortByScore ?rs ! i = ?rs ! (rankOrder ?rs ! i)"
    using len by (simp add: sortByScore_rankOrder length_rankOrder)
  show ?thesis
  proof (cases "lowSpread ?rs")
    case True
    have "sortByScore (reassignFrom 0 (sortByScore ?rs)) = reassignFrom 0 (sortByScore ?rs)"
      by (rule sortByScore_id) (rule sorted_reassignFrom)
    then have "finalRankings ctx = rankFrom 0 (reassignFrom 0 (sortByScore ?rs))"
      using True by (simp add: finalRankings_def differentiate_def)
    moreover have "i < length (sortByScore ?rs)" using len by (simp add: sortByScore_def)
    ultimately show ?thesis
      using True srt by (simp add: nth_rankFrom nth_reassignFrom length_reassignFrom)
  next
    case False
    then have "finalRankings ctx = rankFrom 0 (sortByScore ?rs)"
      by (simp add: finalRankings_def differentiate_def)
    moreover have "i < length (sortByScore ?rs)" using len by (simp add: sortByScore_def)
    ultimately show ?thesis
      using False srt by (simp add: nth_rankFrom)
  qed
qed

lemma map_rank_finalRankings:
  "map rank (finalRankings ctx) = map int [1..<Suc (length (options ctx))]"
proof -
  have "map rank (finalRankings ctx) = map (\<lambda>k. int k + 1) [0..<length (options ctx)]"
    by (simp add: finalRankings_def map_rank_rankFrom sortByScore_def length_differentiate
        length_scoreOptions)
  also have "\<dots> = map int (map Suc [0..<length (options ctx)])"
    by simp
  also have "map Suc [0..<length (options ctx)] = [1..<Suc (length (options ctx))]"
    by (simp only: map_Suc_upt One_nat_def)
  finally show ?thesis .
qed

lemma nth_scoreFrom:
  "k < length opts \<Longrightarrow> scoreFrom ctx i opts ! k = scoreOption ctx (i + k) (opts ! k)"
proof (induction opts arbitrary: i k)
  case Nil
  then show ?case by simp
next
  case (Cons opt opts)
  show ?case
  proof (cases k)
    case 0
    then show ?thesis by simp
  next
    case (Suc k')
    with Cons.prems have "k' < length opts" by simp
    from Cons.IH [OF this, of "Suc i"] Suc show ?thesis by simp
  qed
qed

lemma option_id_scoreOptions:
  "k < length (options ctx) \<Longrightarrow> option_id (scoreOptions ctx ! k) = id_opt (options ctx ! k)"
  by (simp add: scoreOptions_def nth_scoreFrom scoreOption_def Let_def)

lemma find_distinct:
  "distinct (map f xs) \<Longrightarrow> x \<in> set xs \<Longrightarrow> find (\<lambda>y. f y = f x) xs = Some x"
  by (induction xs) (auto simp: image_iff)

lemma analysis_result:
  assumes "options ctx \<noteq> []"
  obtains res where "localAnalyzeDecision ctx = Inr res"
    and "rankings res = finalRankings ctx"
    and "recommended_action res =
           textOr (find (\<lambda>opt. id_opt opt = option_id (finalRankings ctx ! 0)) (options ctx))
             (textOr (Some (hd (options ctx))) ''Make a choice'')"
proof -
  obtain r rs res where fin: "finalRankings ctx = r # rs"
    and res: "localAnalyzeDecision ctx = Inr res" and rk: "rankings res = r # rs"
    and ra: "recommended_action res =
             textOr (find (\<lambda>opt. id_opt opt = option_id r) (options ctx))
               (textOr (case options ctx of [] \<Rightarrow> None | opt # _ \<Rightarrow> Some opt)
                  ''Make a choice'')"
    using assms by (rule localAnalyzeDecision_Inr) simp
  have "(case options ctx of [] \<Rightarrow> None | opt # _ \<Rightarrow> Some opt) = Some (hd (options ctx))"
    using assms by (cases "options ctx") auto
  with ra fin have "recommended_action res =
           textOr (find (\<lambda>opt. id_opt opt = option_id (finalRankings ctx ! 0)) (options ctx))
             (textOr (Some (hd (options ctx))) ''Make a choice'')"
    by simp
  with res rk fin show ?thesis using that by simp
qed

text \<open>
  Claim C1, amended. For a context with \<open>N \<ge> 2\<close> options the analysis returns \<open>N\<close>
  rankings whose ranks are \<open>1, ..., N\<close> in this order. The entry at position \<open>i\<close>
  comes from the option at input position \<open>p ! i\<close>, where \<open>p\<close> is a permutation of
  the input positions that is ordered by descending raw score, ties in the raw score
  being broken by the input order. When the raw scores are kept (the spread is at least
  15) they are the final scores, so ties in the final score are broken by the input
  order; after the low-spread reassignment, entries with the same final score are in
  the order of their raw scores.
\<close>

theorem ranking_order:
  assumes "2 \<le> length (options ctx)"
  shows "\<exists>res p. localAnalyzeDecision ctx = Inr res \<and>
           length (rankings res) = length (options ctx) \<and>
           map rank (rankings res) = map int [1..<Suc (length (options ctx))] \<and>
           length p = length (options ctx) \<and> distinct p \<and>
           set p = {0..<length (options ctx)} \<and>
           (\<forall>i < length (options ctx).
              rankings res ! i =
                (scoreOptions ctx ! (p ! i))
                  \<lparr>rank := int i + 1, score := score (rankings res ! i)\<rparr> \<and>
              option_id (rankings res ! i) = id_opt (options ctx ! (p ! i))) \<and>
           (\<forall>i j. i < j \<and> j < length (options ctx) \<longrightarrow>
              score (scoreOptions ctx ! (p ! j)) < score (scoreOptions ctx ! (p ! i)) \<or>
              (score (scoreOptions ctx ! (p ! j)) = score (scoreOptions ctx ! (p ! i)) \<and>
               p ! i < p ! j)) \<and>
           (\<not> lowSpread (scoreOptions ctx) \<longrightarrow>
              (\<forall>i < length (options ctx).
                 score (rankings res ! i) = score (scoreOptions ctx ! (p ! i))))"
proof -
  let ?rs = "scoreOptions ctx"
  let ?p = "rankOrder ?rs"
  let ?n = "length (options ctx)"
  have len: "length ?rs = ?n" by (rule length_scoreOptions)
  from assms have "options ctx \<noteq> []" by auto
  then obtain res where res: "localAnalyzeDecision ctx = Inr res"
    and rk: "rankings res = finalRankings ctx"
    by (rule analysis_result)
  have a: "length (rankings res) = ?n" by (simp add: rk length_finalRankings)
  have b: "map rank (rankings res) = map int [1..<Suc ?n]"
    by (simp only: rk map_rank_finalRankings)
  have c: "length ?p = ?n \<and> distinct ?p \<and> set ?p = {0..<?n}"
    by (simp add: length_rankOrder distinct_rankOrder set_rankOrder len)
  have d: "rankings res ! i =
             (?rs ! (?p ! i))\<lparr>rank := int i + 1, score := score (rankings res ! i)\<rparr> \<and>
           option_id (rankings res ! i) = id_opt (options ctx ! (?p ! i))"
    if "i < ?n" for i
  proof -
    have "?p ! i < ?n" using rankOrder_less [of i ?rs] that len by simp
    then show ?thesis
      using finalRankings_nth [OF that] by (simp add: rk option_id_scoreOptions)
  qed
  have e: "score (?rs ! (?p ! j)) < score (?rs ! (?p ! i)) \<or>
           (score (?rs ! (?p ! j)) = score (?rs ! (?p ! i)) \<and> ?p ! i < ?p ! j)"
    if "i < j \<and> j < ?n" for i j
    using rankOrder_sorted [of i j ?rs] that len by simp
  have f: "score (rankings res ! i) = score (?rs ! (?p ! i))"
    if "\<not> lowSpread ?rs" and "i < ?n" for i
    using finalRankings_nth [OF that(2)] that(1) by (simp add: rk)
  from res a b c d e f show ?thesis by blast
qed

theorem ranking_order_witness:
  "2 \<le> length (options projectOrSleep) \<and>
   (\<exists>res. localAnalyzeDecision projectOrSleep = Inr res \<and>
      length (rankings res) = 2 \<and> map rank (rankings res) = [1, 2])"
proof -
  have h: "2 \<le> length (options projectOrSleep)"
    by (simp add: projectOrSleep_def)
  have n: "length (options projectOrSleep) = 2"
    by (simp add: projectOrSleep_def)
  have "map int [1..<Suc 2] = [1, 2]"
    by (simp add: upt_rec)
  with ranking_order [OF h] h n show ?thesis
    by auto
qed

lemma lateTie_rankings:
  "finalRankings lateTie =
     [\<lparr>option_id = ''2'', rank = 1, score = 85,
         predicted_outcome =
           ''Balanced outcome expected with potential for goal achievement'',
         risk_level = medium, time_horizon = ''long-term''\<rparr>,
      \<lparr>option_id = ''3'', rank = 2, score = 70,
         predicted_outcome =
           ''Balanced outcome expected with potential for goal achievement'',
         risk_level = medium, time_horizon = ''long-term''\<rparr>,
      \<lparr>option_id = ''4'', rank = 3, score = 55,
         predicted_outcome =
           ''Balanced outcome expected with potential for goal achievement'',
         risk_level = medium, time_horizon = ''long-term''\<rparr>,
      \<lparr>option_id = ''5'', rank = 4, score = 40,
         predicted_outcome =
           ''Balanced outcome expected with potential for goal achievement'',
         risk_level = medium, time_horizon = ''long-term''\<rparr>,
      \<lparr>option_id = ''6'', rank = 5, score = 25,
         predicted_outcome =
           ''Balanced outcome expected with potential for goal achievement'',
         risk_level = medium, time_horizon = ''long-term''\<rparr>,
      \<lparr>option_id = ''1'', rank = 6, score = 25,
         predicted_outcome =
           ''May face obstacles but could lead to goal achievement with careful execution'',
         risk_level = medium, time_horizon = ''long-term''\<rparr>]"
  by code_simp

text \<open>
  Claim C1 as stated fails on six options of low spread: options 6 and 1 both end with
  the score 25, and option 6, the later one in the input, is ranked before option 1.
\<close>

theorem score_tie_counterexample:
  "map id_opt (options lateTie) = [''1'', ''2'', ''3'', ''4'', ''5'', ''6''] \<and>
   (\<exists>res. localAnalyzeDecision lateTie = Inr res \<and>
      map (\<lambda>r. (option_id r, score r, rank r)) (rankings res) =
        [(''2'', 85, 1), (''3'', 70, 2), (''4'', 55, 3), (''5'', 40, 4),
         (''6'', 25, 5), (''1'', 25, 6)])"
  by (simp add: localAnalyzeDecision_def lateTie_rankings Let_def) (simp add: lateTie_def)

text \<open>
  The recommended action in general: for pairwise distinct ids it is the text of the one
  option whose ranking has rank 1, unless that text is empty; the source then falls
  back to the first option of the input and to a fixed phrase.
\<close>

lemma recommended_action_fallback:
  assumes "2 \<le> length (options ctx)" and "distinct (map id_opt (options ctx))"
  shows "\<exists>res. localAnalyzeDecision ctx = Inr res \<and>
           (\<exists>r \<in> set (rankings res). rank r = 1) \<and>
           (\<forall>r \<in> set (rankings res). rank r = 1 \<longrightarrow>
              (\<exists>opt \<in> set (options ctx). id_opt opt = option_id r) \<and>
              (\<forall>opt \<in> set (options ctx). id_opt opt = option_id r \<longrightarrow>
                 recommended_action res =
                   (if text_opt opt \<noteq> [] then text_opt opt
                    else if text_opt (hd (options ctx)) \<noteq> [] then text_opt (hd (options ctx))
                    else ''Make a choice'')))"
proof -
  let ?rs = "scoreOptions ctx"
  let ?n = "length (options ctx)"
  let ?top = "options ctx ! (rankOrder ?rs ! 0)"
  from assms(1) have ne: "options ctx \<noteq> []" and pos: "0 < ?n" by auto
  from ne obtain res where res: "localAnalyzeDecision ctx = Inr res"
    and rk: "rankings res = finalRankings ctx"
    and ra: "recommended_action res =
           textOr (find (\<lambda>opt. id_opt opt = option_id (finalRankings ctx ! 0)) (options ctx))
             (textOr (Some (hd (options ctx))) ''Make a choice'')"
    by (rule analysis_result)
  have len: "length (finalRankings ctx) = ?n" by (rule length_finalRankings)
  have rank_nth: "rank (finalRankings ctx ! i) = int i + 1" if "i < ?n" for i
    using finalRankings_nth [OF that] by simp
  have top_lt: "rankOrder ?rs ! 0 < ?n"
    using rankOrder_less [of 0 ?rs] pos by (simp add: length_scoreOptions)
  then have top_in: "?top \<in> set (options ctx)" by simp
  have top_id: "option_id (finalRankings ctx ! 0) = id_opt ?top"
    using finalRankings_nth [OF pos] top_lt by (simp add: option_id_scoreOptions)
  have fnd: "find (\<lambda>opt. id_opt opt = option_id (finalRankings ctx ! 0)) (options ctx) = Some ?top"
    unfolding top_id using assms(2) top_in by (rule find_distinct)
  have first: "finalRankings ctx ! 0 \<in> set (rankings res)"
    using pos len by (simp add: rk)
  have only: "r = finalRankings ctx ! 0" if "r \<in> set (rankings res)" and "rank r = 1" for r
  proof -
    from that(1) obtain i where i: "i < ?n" and r: "r = finalRankings ctx ! i"
      by (auto simp: rk in_set_conv_nth len)
    with rank_nth [OF i] that(2) have "i = 0" by simp
    with r show ?thesis by simp
  qed
  have uniq: "opt = ?top" if "opt \<in> set (options ctx)" and "id_opt opt = id_opt ?top" for opt
    using assms(2) that top_in by (meson distinct_map inj_onD)
  have val: "recommended_action res =
               (if text_opt ?top \<noteq> [] then text_opt ?top
                else if text_opt (hd (options ctx)) \<noteq> [] then text_opt (hd (options ctx))
                else ''Make a choice'')"
    unfolding ra fnd by (simp add: textOr_def)
  have ex: "\<exists>r \<in> set (rankings res). rank r = 1"
    using first rank_nth [OF pos] by auto
  have all: "(\<exists>opt \<in> set (options ctx). id_opt opt = option_id r) \<and>
             (\<forall>opt \<in> set (options ctx). id_opt opt = option_id r \<longrightarrow>
                recommended_action res =
                  (if text_opt opt \<noteq> [] then text_opt opt
                   else if text_opt (hd (options ctx)) \<noteq> [] then text_opt (hd (options ctx))
                   else ''Make a choice''))"
    if "r \<in> set (rankings res)" and "rank r = 1" for r
  proof -
    have r: "option_id r = id_opt ?top" using only [OF that] top_id by simp
    show ?thesis
      unfolding r using top_in uniq val by blast
  qed
  from res ex all show ?thesis by blast
qed

text \<open>
  Claim C3. For a context with at least two options of pairwise distinct ids (and, as
  the data model requires of an option, non-empty texts), there is a ranking of rank 1,
  its option is one of the input, and the recommended action is the text of that
  option.
\<close>

theorem recommended_action_top_text:
  assumes "2 \<le> length (options ctx)" and "distinct (map id_opt (options ctx))"
    and "\<forall>opt \<in> set (options ctx). text_opt opt \<noteq> []"
  shows "\<exists>res. localAnalyzeDecision ctx = Inr res \<and>
           (\<exists>r \<in> set (rankings res). rank r = 1) \<and>
           (\<forall>r \<in> set (rankings res). rank r = 1 \<longrightarrow>
              (\<exists>opt \<in> set (options ctx). id_opt opt = option_id r) \<and>
              (\<forall>opt \<in> set (options ctx). id_opt opt = option_id r \<longrightarrow>
                 recommended_action res = text_opt opt))"
proof -
  from recommended_action_fallback [OF assms(1,2)] obtain res
    where res: "localAnalyzeDecision ctx = Inr res"
      and ex: "\<exists>r \<in> set (rankings res). rank r = 1"
      and all: "\<forall>r \<in> set (rankings res). rank r = 1 \<longrightarrow>
              (\<exists>opt \<in> set (options ctx). id_opt opt = option_id r) \<and>
              (\<forall>opt \<in> set (options ctx). id_opt opt = option_id r \<longrightarrow>
                 recommended_action res =
                   (if text_opt opt \<noteq> [] then text_opt opt
                    else if text_opt (hd (options ctx)) \<noteq> [] then text_opt (hd (options ctx))
                    else ''Make a choice''))"
    by blast
  have "(\<exists>opt \<in> set (options ctx). id_opt opt = option_id r) \<and>
        (\<forall>opt \<in> set (options ctx). id_opt opt = option_id r \<longrightarrow>
           recommended_action res = text_opt opt)"
    if "r \<in> set (rankings res)" and "rank r = 1" for r
  proof -
    from all that have a: "\<exists>opt \<in> set (options ctx). id_opt opt = option_id r"
      and b: "\<forall>opt \<in> set (options ctx). id_opt opt = option_id r \<longrightarrow>
                 recommended_action res =
                   (if text_opt opt \<noteq> [] then text_opt opt
                    else if text_opt (hd (options ctx)) \<noteq> [] then text_opt (hd (options ctx))
                    else ''Make a choice'')"
      by blast+
    have "recommended_action res = text_opt opt"
      if "opt \<in> set (options ctx)" and "id_opt opt = option_id r" for opt
      using b that assms(3) by simp
    with a show ?thesis by blast
  qed
  with res ex show ?thesis by blast
qed

theorem recommended_action_top_text_witness:
  "2 \<le> length (options projectOrSleep) \<and> distinct (map id_opt (options projectOrSleep)) \<and>
   list_all (\<lambda>opt. text_opt opt \<noteq> []) (options projectOrSleep) \<and>
   (\<exists>res. localAnalyzeDecision projectOrSleep = Inr res \<and>
      map (\<lambda>r. (option_id r, rank r)) (rankings res) = [(''1'', 1), (''2'', 2)] \<and>
      recommended_action res = ''Finish the project'')"
proof -
  let ?o1 = "\<lparr> id_opt = ''1'', text_opt = ''Finish the project'', pros = None, cons = None \<rparr>"
  have h: "2 \<le> length (options projectOrSleep)"
    and d: "distinct (map id_opt (options projectOrSleep))"
    and t: "\<forall>opt \<in> set (options projectOrSleep). text_opt opt \<noteq> []"
    by (simp_all add: projectOrSleep_def)
  from recommended_action_top_text [OF h d t] obtain res
    where res: "localAnalyzeDecision projectOrSleep = Inr res"
      and all: "\<forall>r \<in> set (rankings res). rank r = 1 \<longrightarrow>
              (\<exists>opt \<in> set (options projectOrSleep). id_opt opt = option_id r) \<and>
              (\<forall>opt \<in> set (options projectOrSleep). id_opt opt = option_id r \<longrightarrow>
                 recommended_action res = text_opt opt)"
    by blast
  have rk: "rankings res = finalRankings projectOrSleep"
    using res by (rule rankings_of_result)
  have top: "hd (rankings res) \<in> set (rankings res)" "rank (hd (rankings res)) = 1"
    "option_id (hd (rankings res)) = ''1''"
    by (simp_all add: rk projectOrSleep_rankings)
  have o1: "?o1 \<in> set (options projectOrSleep)" "id_opt ?o1 = ''1''"
    by (simp_all add: projectOrSleep_def)
  from all top o1 have "recommended_action res = text_opt ?o1" by metis
  then have ra: "recommended_action res = ''Finish the project''" by simp
  have "map (\<lambda>r. (option_id r, rank r)) (rankings res) = [(''1'', 1), (''2'', 2)]"
    by (simp add: rk projectOrSleep_rankings)
  with h d t res ra show ?thesis by (auto simp: list_all_iff)
qed

section \<open>Low spread\<close>

lemma lateTie_order: "rankOrder (scoreOptions lateTie) = [1, 2, 3, 4, 5, 0]"
  by code_simp

text \<open>
  Claim C9. For a context with at least six options whose raw score spread is below 15,
  let the options be taken in the stable order of descending raw score (\<open>rankOrder\<close>:
  a permutation of the input positions in which a later entry has a smaller raw score,
  or the same raw score and a later input position). Then the ranking at every position
  \<open>i \<ge> 4\<close> is the scored option at sorted position \<open>i\<close> with its score replaced by 25,
  the clamp of \<open>85 - 15 * i\<close>, and with rank \<open>i + 1\<close>. So the options at sorted
  positions 4 and 5 have equal final scores, not scores 15 apart, while all ranks are
  distinct.
\<close>

theorem floor_score_from_fifth:
  assumes "6 \<le> length (options ctx)" and "lowSpread (scoreOptions ctx)"
  shows "\<exists>res. localAnalyzeDecision ctx = Inr res \<and>
           length (rankings res) = length (options ctx) \<and>
           length (rankOrder (scoreOptions ctx)) = length (options ctx) \<and>
           distinct (rankOrder (scoreOptions ctx)) \<and>
           set (rankOrder (scoreOptions ctx)) = {0..<length (options ctx)} \<and>
           (\<forall>i j. i < j \<and> j < length (options ctx) \<longrightarrow>
              score (scoreOptions ctx ! (rankOrder (scoreOptions ctx) ! j))
                < score (scoreOptions ctx ! (rankOrder (scoreOptions ctx) ! i)) \<or>
              (score (scoreOptions ctx ! (rankOrder (scoreOptions ctx) ! j))
                 = score (scoreOptions ctx ! (rankOrder (scoreOptions ctx) ! i)) \<and>
               rankOrder (scoreOptions ctx) ! i < rankOrder (scoreOptions ctx) ! j)) \<and>
           (\<forall>i. 4 \<le> i \<and> i < length (rankings res) \<longrightarrow>
              score (rankings res ! i) = 25 \<and>
              max 25 (min 95 (85 - int i * 15)) = 25 \<and>
              rankings res ! i =
                (scoreOptions ctx ! (rankOrder (scoreOptions ctx) ! i))
                  \<lparr>score := 25, rank := int i + 1\<rparr> \<and>
              option_id (rankings res ! i) =
                id_opt (options ctx ! (rankOrder (scoreOptions ctx) ! i))) \<and>
           score (rankings res ! 4) = score (rankings res ! 5) \<and>
           distinct (map rank (rankings res))"
proof -
  let ?n = "length (options ctx)"
  let ?rs = "scoreOptions ctx"
  let ?p = "rankOrder ?rs"
  have lrs: "length ?rs = ?n" by (rule length_scoreOptions)
  from assms(1) have "options ctx \<noteq> []" by auto
  then obtain res where res: "localAnalyzeDecision ctx = Inr res"
    and rk: "rankings res = finalRankings ctx"
    by (rule analysis_result)
  have len: "length (rankings res) = ?n" by (simp add: rk length_finalRankings)
  have perm: "length ?p = ?n \<and> distinct ?p \<and> set ?p = {0..<?n}"
    by (simp add: length_rankOrder distinct_rankOrder set_rankOrder lrs)
  have ord: "score (?rs ! (?p ! j)) < score (?rs ! (?p ! i)) \<or>
             (score (?rs ! (?p ! j)) = score (?rs ! (?p ! i)) \<and> ?p ! i < ?p ! j)"
    if "i < j \<and> j < ?n" for i j
    using rankOrder_sorted [of i j ?rs] that lrs by simp
  have low: "score (rankings res ! i) = 25 \<and>
             max 25 (min 95 (85 - int i * 15)) = 25 \<and>
             rankings res ! i = (?rs ! (?p ! i))\<lparr>score := 25, rank := int i + 1\<rparr> \<and>
             option_id (rankings res ! i) = id_opt (options ctx ! (?p ! i))"
    if "4 \<le> i \<and> i < length (rankings res)" for i
  proof -
    from that len have i: "i < ?n" and i4: "4 \<le> i" by simp_all
    from i4 have "85 - int i * 15 \<le> 25" by simp
    then have c: "max 25 (min 95 (85 - int i * 15)) = 25" by simp
    have "?p ! i < ?n" using rankOrder_less [of i ?rs] i lrs by simp
    then have id: "option_id (?rs ! (?p ! i)) = id_opt (options ctx ! (?p ! i))"
      by (rule option_id_scoreOptions)
    from finalRankings_nth [OF i] assms(2) c
    have "rankings res ! i = (?rs ! (?p ! i))\<lparr>score := 25, rank := int i + 1\<rparr>"
      by (simp add: rk)
    with c id show ?thesis by simp
  qed
  have "score (rankings res ! 4) = score (rankings res ! 5)"
    using low [of 4] low [of 5] assms(1) len by simp
  moreover have "distinct (map rank (rankings res))"
    unfolding rk map_rank_finalRankings by (simp add: distinct_map)
  ultimately show ?thesis using res len perm ord low by blast
qed

theorem floor_score_from_fifth_witness:
  "6 \<le> length (options lateTie) \<and> lowSpread (scoreOptions lateTie) \<and>
   map score (scoreOptions lateTie) = [46, 52, 51, 50, 50, 50] \<and>
   rankOrder (scoreOptions lateTie) = [1, 2, 3, 4, 5, 0] \<and>
   (\<exists>res. localAnalyzeDecision lateTie = Inr res \<and>
      option_id (rankings res ! 4) = ''6'' \<and> score (rankings res ! 4) = 25 \<and>
      option_id (rankings res ! 5) = ''1'' \<and> score (rankings res ! 5) = 25)"
proof -
  have h: "6 \<le> length (options lateTie)"
    by (simp add: lateTie_def)
  have l: "lowSpread (scoreOptions lateTie)"
    by code_simp
  have raw: "map score (scoreOptions lateTie) = [46, 52, 51, 50, 50, 50]"
    by code_simp
  from floor_score_from_fifth [OF h l] obtain res
    where res: "localAnalyzeDecision lateTie = Inr res"
      and len: "length (rankings res) = length (options lateTie)"
      and low: "\<forall>i. 4 \<le> i \<and> i < length (rankings res) \<longrightarrow>
              score (rankings res ! i) = 25 \<and>
              max 25 (min 95 (85 - int i * 15)) = 25 \<and>
              rankings res ! i =
                (scoreOptions lateTie ! (rankOrder (scoreOptions lateTie) ! i))
                  \<lparr>score := 25, rank := int i + 1\<rparr> \<and>
              option_id (rankings res ! i) =
                id_opt (options lateTie ! (rankOrder (scoreOptions lateTie) ! i))"
    by blast
  have n: "length (rankings res) = 6" using len by (simp add: lateTie_def)
  have c4: "4 \<le> (4::nat) \<and> 4 < length (rankings res)"
    and c5: "4 \<le> (5::nat) \<and> 5 < length (rankings res)"
    using n by simp_all
  from low c4 have "score (rankings res ! 4) = 25 \<and>
      option_id (rankings res ! 4) = id_opt (options lateTie ! (rankOrder (scoreOptions lateTie) ! 4))"
    by blast
  moreover from low c5 have "score (rankings res ! 5) = 25 \<and>
      option_id (rankings res ! 5) = id_opt (options lateTie ! (rankOrder (scoreOptions lateTie) ! 5))"
    by blast
  moreover have "id_opt (options lateTie ! 5) = ''6''" "id_opt (options lateTie ! 0) = ''1''"
    by (simp_all add: lateTie_def)
  ultimately show ?thesis using h l raw res by (simp add: lateTie_order)
qed

lemma rawScore_same_text:
  assumes "text_opt o1 = text_opt o2" and "lengthOr0 (pros o1) = lengthOr0 (pros o2)"
    and "lengthOr0 (cons o1) = lengthOr0 (cons o2)"
  shows "rawScore ctx 0 o1 = rawScore ctx (Suc 0) o2 + 1"
  using assms by (simp add: rawScore_def Let_def)

text \<open>
  Claim C6. For a context with exactly two options of the same text and without pros
  and cons, the raw spread is below 15 (the raw scores differ by the position bonus
  only), the first option has the raw score that is not smaller, and the result keeps
  this order: the first option gets score 85 and rank 1, the second score 70 and rank
  2, so the final scores are 15 apart. This holds whatever keywords the title and the
  description contain.
\<close>

theorem identical_texts:
  assumes "options ctx = [o1, o2]" and "text_opt o1 = text_opt o2"
    and "lengthOr0 (pros o1) = 0" and "lengthOr0 (cons o1) = 0"
    and "lengthOr0 (pros o2) = 0" and "lengthOr0 (cons o2) = 0"
  shows "lowSpread (scoreOptions ctx) \<and>
         score (scoreOptions ctx ! 1) \<le> score (scoreOptions ctx ! 0) \<and>
         (\<exists>res r1 r2. localAnalyzeDecision ctx = Inr res \<and> rankings res = [r1, r2] \<and>
            option_id r1 = id_opt o1 \<and> option_id r2 = id_opt o2 \<and>
            score r1 = 85 \<and> score r2 = 70 \<and> 15 \<le> score r1 - score r2 \<and>
            rank r1 = 1 \<and> rank r2 = 2)"
proof -
  let ?a = "scoreOption ctx 0 o1"
  let ?b = "scoreOption ctx (Suc 0) o2"
  have rs: "scoreOptions ctx = [?a, ?b]"
    by (simp add: scoreOptions_def assms(1))
  have raw: "rawScore ctx 0 o1 = rawScore ctx (Suc 0) o2 + 1"
    by (rule rawScore_same_text) (simp_all add: assms)
  have sa: "score ?a = min 95 (max 20 (rawScore ctx (Suc 0) o2 + 1))"
    by (simp add: scoreOption_def Let_def raw)
  have sb: "score ?b = min 95 (max 20 (rawScore ctx (Suc 0) o2))"
    by (simp add: scoreOption_def Let_def)
  have le: "score ?b \<le> score ?a" and near: "score ?a \<le> score ?b + 1"
    unfolding sa sb by auto
  have low: "lowSpread (scoreOptions ctx)"
    using le near by (simp add: rs lowSpread_def spreadOf_def mathMax_def mathMin_def)
  have ord: "rankOrder (scoreOptions ctx) = [0, 1]"
    using le by (simp add: rs rankOrder_def upt_rec)
  have n: "length (options ctx) = 2" by (simp add: assms(1))
  from assms(1) have "options ctx \<noteq> []" by simp
  then obtain res where res: "localAnalyzeDecision ctx = Inr res"
    and rk: "rankings res = finalRankings ctx"
    by (rule analysis_result)
  have "length (rankings res) = 2" by (simp add: rk length_finalRankings n)
  then have two: "rankings res = [finalRankings ctx ! 0, finalRankings ctx ! 1]"
    unfolding rk by (cases "finalRankings ctx"; cases "tl (finalRankings ctx)") auto
  have f0: "finalRankings ctx ! 0 = ?a\<lparr>score := 85, rank := 1\<rparr>"
    using finalRankings_nth [of 0 ctx] low by (simp add: n ord) (simp add: rs)
  have f1: "finalRankings ctx ! 1 = ?b\<lparr>score := 70, rank := 2\<rparr>"
    using finalRankings_nth [of 1 ctx] low by (simp add: n ord) (simp add: rs)
  have ids: "option_id ?a = id_opt o1" "option_id ?b = id_opt o2"
    by (simp_all add: scoreOption_def Let_def)
  from le have "score (scoreOptions ctx ! 1) \<le> score (scoreOptions ctx ! 0)"
    by (simp add: rs)
  with low res two f0 f1 ids show ?thesis by simp
qed

theorem identical_texts_witness:
  "\<exists>res r1 r2. localAnalyzeDecision sameTwice = Inr res \<and> rankings res = [r1, r2] \<and>
      option_id r1 = ''a'' \<and> option_id r2 = ''b'' \<and> score r1 = 85 \<and> score r2 = 70 \<and>
      rank r1 = 1 \<and> rank r2 = 2"
proof -
  have "options sameTwice =
          [\<lparr> id_opt = ''a'', text_opt = ''Pizza'', pros = None, cons = Some [] \<rparr>,
           \<lparr> id_opt = ''b'', text_opt = ''Pizza'', pros = Some [], cons = None \<rparr>]"
    by (simp add: sameTwice_def)
  from identical_texts [OF this]
  have "\<exists>res r1 r2. localAnalyzeDecision sameTwice = Inr res \<and> rankings res = [r1, r2] \<and>
          option_id r1 = ''a'' \<and> option_id r2 = ''b'' \<and> score r1 = 85 \<and> score r2 = 70 \<and>
          15 \<le> score r1 - score r2 \<and> rank r1 = 1 \<and> rank r2 = 2"
    by (simp add: lengthOr0_def)
  then show ?thesis by blast
qed

section \<open>Properties of the weekly metrics\<close>

lemma list5:
  assumes "length xs = 5"
  obtains a b c d e where "xs = [a, b, c, d, e]"
  using assms by (auto simp: eval_nat_numeral length_Suc_conv)

text \<open>
  Claim C7, amended. For five decisions of urgency \<open>critical\<close>, each taken in 900
  seconds and not completed, all created on one calendar day, the loop ends without an
  error; the urgency, time and incompletion summands are each at their cap 2.5, the
  daily-volume summand is 1 (five decisions on the one active day, divided by 5), and
  the fatigue score is 8.5, in both copies of the function.
\<close>

theorem fatigue_five_critical:
  assumes "length ds = 5"
    and "\<forall>d \<in> set ds. urgency_d d = ''critical'' \<and> time_to_decide d = Some 900 \<and>
           \<not> is_completed d \<and> isoDay (created_at d) = Some day"
  shows "\<exists>acc. fatigueLoop isoDay noCounters ds = Inr acc \<and>
           fatigueComponents acc (length ds) = (1, 5 / 2, 5 / 2, 5 / 2) \<and>
           calculateFatigueScore isoDay ds = Inr (17 / 2) \<and>
           calculateFatigueScore_weekly isoDay ds = Inr (17 / 2)"
proof -
  from assms(1) obtain a b c d e where ds: "ds = [a, b, c, d, e]" by (rule list5)
  let ?acc = "\<lparr> dailyDecisionCounts = [(day, 5)], highUrgencyCount = 5,
     totalTimeToDecide = 4500, decisionsWithTime = 5, incompleteCount = 5 \<rparr>"
  have loop: "fatigueLoop isoDay noCounters ds = Inr ?acc"
    using assms(2) by (simp add: ds noCounters_def fatigueStep_def)
  have comp: "fatigueComponents ?acc (length ds) = (1, 5 / 2, 5 / 2, 5 / 2)"
    by (simp add: ds fatigueComponents_def)
  have "calculateFatigueScore isoDay ds = Inr (17 / 2)"
    unfolding calculateFatigueScore_def loop using comp by (simp add: ds)
  moreover have "calculateFatigueScore_weekly isoDay ds = Inr (17 / 2)"
    unfolding calculateFatigueScore_weekly_def loop using comp by (simp add: ds)
  ultimately show ?thesis using loop comp by blast
qed

lemma fiveCritical_props:
  "length fiveCritical = 5"
  "\<forall>d \<in> set fiveCritical. urgency_d d = ''critical'' \<and> time_to_decide d = Some 900 \<and>
           \<not> is_completed d \<and> utcDay (created_at d) = Some ''2024-05-01''"
  by (simp_all add: fiveCritical_def criticalAt_def utcDay_def)

theorem fatigue_five_critical_witness:
  "length fiveCritical = 5 \<and> calculateFatigueScore utcDay fiveCritical = Inr (17 / 2)"
  using fatigue_five_critical [OF fiveCritical_props] fiveCritical_props(1) by blast

text \<open>
  Claim C7 as stated fails: on five such decisions the daily-volume summand is 1, which
  is 1.5 below its cap of 2.5, and the score is 8.5.
\<close>

theorem fatigue_daily_component_counterexample:
  "\<exists>acc. fatigueLoop utcDay noCounters fiveCritical = Inr acc \<and>
     dailyDecisionCounts acc = [(''2024-05-01'', 5)] \<and>
     fatigueComponents acc 5 = (1, 5 / 2, 5 / 2, 5 / 2) \<and>
     calculateFatigueScore utcDay fiveCritical = Inr (17 / 2) \<and>
     calculateFatigueScore_weekly utcDay fiveCritical = Inr (17 / 2)"
  by (simp add: fiveCritical_def criticalAt_def utcDay_def noCounters_def fatigueStep_def
      fatigueComponents_def calculateFatigueScore_def calculateFatigueScore_weekly_def)

lemma fatigueStep_swap:
  "nullZeroSwap d d' \<Longrightarrow> fatigueStep day d' acc = fatigueStep day d acc"
  by (auto simp: nullZeroSwap_def fatigueStep_def)

lemma created_at_swap: "nullZeroSwap d d' \<Longrightarrow> created_at d' = created_at d"
  by (auto simp: nullZeroSwap_def)

lemma fatigueLoop_swap:
  "list_all2 nullZeroSwap ds ds' \<Longrightarrow> fatigueLoop isoDay acc ds' = fatigueLoop isoDay acc ds"
proof (induction ds ds' arbitrary: acc rule: list_all2_induct)
  case Nil
  then show ?case by simp
next
  case (Cons d ds d' ds')
  then show ?case
    by (simp add: fatigueStep_swap created_at_swap split: option.split)
qed

lemma biasStep_swap:
  assumes "nullZeroSwap d d'"
  shows "biasStep d' acc = biasStep d acc"
proof -
  have o: "options_d d' = options_d d" and c: "chosen_option_d d' = chosen_option_d d"
    and f: "confidence_score_d d' = confidence_score_d d"
    using assms by (auto simp: nullZeroSwap_def)
  have t: "time_to_decide d' = time_to_decide d \<or>
           (time_to_decide d' = None \<and> time_to_decide d = Some 0) \<or>
           (time_to_decide d' = Some 0 \<and> time_to_decide d = None)"
    using assms by (auto simp: nullZeroSwap_def)
  show ?thesis
    unfolding biasStep_def o c f using t by auto
qed

lemma fold_biasStep_swap:
  "list_all2 nullZeroSwap ds ds' \<Longrightarrow> fold biasStep ds' acc = fold biasStep ds acc"
proof (induction ds ds' arbitrary: acc rule: list_all2_induct)
  case Nil
  then show ?case by simp
next
  case (Cons d ds d' ds')
  then show ?case by (simp add: biasStep_swap)
qed

text \<open>
  Claim C10. Replacing, in any decisions of a list, a time to decide of \<open>null\<close> by 0
  or of 0 by \<open>null\<close> changes neither the fatigue score (in both copies of the
  function, an error included) nor any bias fraction.
\<close>

theorem zero_time_is_no_time:
  assumes "list_all2 nullZeroSwap ds ds'"
  shows "calculateFatigueScore isoDay ds' = calculateFatigueScore isoDay ds \<and>
         calculateFatigueScore_weekly isoDay ds' = calculateFatigueScore_weekly isoDay ds \<and>
         analyzeBiases ds' = analyzeBiases ds"
proof -
  have len: "length ds' = length ds"
    using assms by (simp add: list_all2_lengthD)
  have loop: "fatigueLoop isoDay noCounters ds' = fatigueLoop isoDay noCounters ds"
    using assms by (rule fatigueLoop_swap)
  have bias: "\<And>acc. fold biasStep ds' acc = fold biasStep ds acc"
    using assms by (rule fold_biasStep_swap)
  show ?thesis
    unfolding calculateFatigueScore_def calculateFatigueScore_weekly_def analyzeBiases_def
      len loop bias by simp
qed

theorem zero_time_is_no_time_witness:
  "list_all2 nullZeroSwap untimed untimedSwapped \<and>
   calculateFatigueScore utcDay untimedSwapped = calculateFatigueScore utcDay untimed \<and>
   analyzeBiases untimedSwapped = analyzeBiases untimed"
proof -
  have h: "list_all2 nullZeroSwap untimed untimedSwapped"
    by (simp add: untimed_def untimedSwapped_def nullZeroSwap_def criticalAt_def)
  from zero_time_is_no_time [OF h] h show ?thesis by blast
qed

lemma successRateOf_nonneg: "0 \<le> successRateOf s"
  by (simp add: successRateOf_def)

lemma foldl_best_unchanged:
  assumes "\<forall>(c, s) \<in> set cs. positive s = 0"
  shows "foldl (\<lambda>best (cat, stats).
              if successRateOf stats > successRateOf (snd best) then (cat, stats) else best)
           b cs = b"
  using assms
proof (induction cs arbitrary: b)
  case Nil
  then show ?case by simp
next
  case (Cons x xs)
  obtain c s where x: "x = (c, s)" by (cases x)
  with Cons.prems have "positive s = 0" by simp
  then have "successRateOf s = 0" by (simp add: successRateOf_def)
  then have "\<not> successRateOf s > successRateOf (snd b)"
    using successRateOf_nonneg [of "snd b"] by simp
  with Cons x show ?case by simp
qed

text \<open>
  Claim C8, amended. When every category has zero positive outcomes, the fold over the
  categories returns the sentinel \<open>none\<close> with which it was seeded: no category is
  selected, and the category section emits no insight.
\<close>

theorem no_best_category:
  assumes "\<forall>(c, s) \<in> set categories. positive s = 0"
  shows "bestCategory categories = (''none'', \<lparr> total_n = 0, positive = 0 \<rparr>) \<and>
         categoryInsights categories = []"
proof -
  have "bestCategory categories = (''none'', \<lparr> total_n = 0, positive = 0 \<rparr>)"
    unfolding bestCategory_def using assms by (rule foldl_best_unchanged)
  then show ?thesis by (simp add: categoryInsights_def)
qed

theorem no_best_category_witness:
  "list_all (\<lambda>(c, s). positive s = 0) allFailed \<and>
   bestCategory allFailed = (''none'', \<lparr> total_n = 0, positive = 0 \<rparr>)"
proof -
  have h: "\<forall>(c, s) \<in> set allFailed. positive s = 0"
    by (simp add: allFailed_def)
  from no_best_category [OF h] h show ?thesis
    by (simp add: list_all_iff)
qed

text \<open>
  Claim C8 as stated fails: with two categories of 3 and 5 decisions and no positive
  outcome, the best category is the sentinel and no insight is reported.
\<close>

theorem zero_rate_category_counterexample:
  "map (\<lambda>(c, s). (c, total_n s, positive s)) allFailed = [(''work'', 3, 0), (''health'', 5, 0)] \<and>
   fst (bestCategory allFailed) = ''none'' \<and> categoryInsights allFailed = []"
  by (simp add: allFailed_def bestCategory_def categoryInsights_def successRateOf_def)

end
